theory Spec2Isabelle
  imports Main "HOL-Library.AList"
begin

section \<open>The career analysis workflow (app/workflows/analysis_workflow.py)\<close>

text \<open>
  A shallow embedding of \<open>CareerAnalysisWorkflow\<close>: its typed events
  (app/workflows/events.py), the run context \<open>ctx.store\<close>, the agents' common
  \<open>BaseAgent.process\<close> wrapper (app/agents/base_agent.py), the ten step handlers and the
  progress reporter \<open>broadcast_workflow_progress\<close>.

  Conventions of the embedding.
  \<^item> A Python \<open>str\<close> is a \<open>string\<close>; a \<open>dict\<close> is an association list in insertion
    order whose keys are distinct; \<open>d[k] = v\<close> is \<open>AList.update k v d\<close> (replace in
    place, or append), \<open>d.get(k, dflt)\<close> is a \<open>map_of\<close> lookup and
    \<open>list(d.values())\<close> is \<open>map snd d\<close>.
  \<^item> A function that may raise returns \<open>exn + 'a\<close>, \<open>Inl\<close> carrying the exception.
    \<open>exn\<close> stands for instances of Python's \<open>Exception\<close>; \<open>ValueError\<close> is kept
    apart because \<open>BaseAgent.process\<close> handles it in a branch of its own.
  \<^item> The payload of an agent (\<open>AgentOutput.data\<close>, a \<open>Dict[str, Any]\<close>) is the record
    \<open>agent_data\<close>: the two keys the workflow reads (\<open>missing_skills\<close>, \<open>job_title\<close>,
    each absent or present) and the remaining entries as an opaque association list.
    The empty dict \<open>{}\<close> is \<open>empty_data\<close>.
  \<^item> A handler runs from its first to its last statement without interleaving; a run is
    the start handler followed by a schedule that picks, at every step, which pending
    event is handled next.
\<close>

subsection \<open>Exceptions, payloads and agents\<close>

datatype exn = ValueError string | OtherException string

text \<open>
  An element of \<open>missing_skills\<close>: a dict (with its \<open>skill_name\<close> entry when it has
  one), or a value of another type, given by its \<open>str()\<close>.
\<close>

datatype skill_item = SkillDict "string option" | SkillOther string

record agent_data =
  missing_skills :: "skill_item list option"
  job_title :: "string option"
  other_fields :: "(string \<times> string) list"

definition empty_data :: agent_data where
  "empty_data = \<lparr>missing_skills = None, job_title = None, other_fields = []\<rparr>"

text \<open>\<open>AgentOutput\<close> (app/models/specs.py), without the wall-clock \<open>processing_time_ms\<close>.\<close>

record agent_output =
  success :: bool
  data :: agent_data
  errors :: "string list"

text \<open>
  \<open>BaseAgent.process\<close>: runs the agent's \<open>_execute\<close> inside a try block. A
  \<open>ValueError\<close> and any other \<open>Exception\<close> both become an output with
  \<open>success=False\<close>, \<open>data={}\<close> and the message in \<open>errors\<close>. The status broadcasts
  inside \<open>process\<close> swallow their own failures and do not change the value returned.
\<close>

definition process :: "('i \<Rightarrow> exn + agent_data) \<Rightarrow> 'i \<Rightarrow> agent_output" where
  "process execute input_data =
     (case execute input_data of
        Inr result_data \<Rightarrow> \<lparr>success = True, data = result_data, errors = []\<rparr>
      | Inl (ValueError e) \<Rightarrow> \<lparr>success = False, data = empty_data, errors = [e]\<rparr>
      | Inl (OtherException e) \<Rightarrow>
          \<lparr>success = False, data = empty_data, errors = [''Agent error: '' @ e]\<rparr>)"

text \<open>
  The six task adapters: the \<open>_execute\<close> method of each agent class, a function of the
  input the handler passes to \<open>process\<close>.
\<close>

record adapters =
  resume_parser_execute :: "string \<Rightarrow> exn + agent_data"
  jd_analyzer_execute :: "string \<Rightarrow> exn + agent_data"
  skill_matcher_execute :: "string \<times> string \<times> string \<Rightarrow> exn + agent_data"
  recommendation_execute ::
    "string \<times> string \<times> string option \<times> string list \<Rightarrow> exn + agent_data"
  interview_prep_execute ::
    "string \<times> string \<times> string option \<times> string list \<Rightarrow> exn + agent_data"
  market_insights_execute :: "string \<times> string option \<times> string \<Rightarrow> exn + agent_data"

subsection \<open>Events (app/workflows/events.py)\<close>

record StartAnalysisEvent =
  ev_session_id :: string
  ev_resume_id :: string
  ev_job_ids :: "string list"
  resume_text :: "string option"
  job_texts :: "(string \<times> string) list option"

text \<open>The dict passed to \<open>StopEvent(result=...)\<close> by \<open>finalize\<close>.\<close>

record final_result =
  r_success :: bool
  r_session_id :: string
  r_resume_id :: string
  job_matches :: "agent_data list"
  r_recommendations :: agent_data
  r_interview_prep :: agent_data
  r_market_insights :: agent_data

datatype event =
    ResumeParseEvent string string
  | ResumeParseResultEvent string agent_data
  | JDAnalyzeEvent string string
  | JDAnalyzeResultEvent string agent_data
  | SkillMatchEvent string string string
  | SkillMatchResultEvent string agent_data
  | GenerateRecommendationsEvent string "string list"
  | GenerateInterviewPrepEvent string "string list"
  | GenerateMarketInsightsEvent string string
  | RecommendationResultEvent agent_data
  | InterviewPrepResultEvent agent_data
  | MarketInsightsResultEvent agent_data
  | StopEvent final_result

subsection \<open>The run context\<close>

text \<open>
  The keys of \<open>ctx.store\<close>. The first nine are set by \<open>start\<close>; the last four are
  unset until the handler that produces them has run.
\<close>

record store =
  session_id :: string
  resume_id :: string
  job_ids :: "string list"
  completed_steps :: "string list"
  parsed_jobs :: "(string \<times> agent_data) list"
  skill_matches :: "(string \<times> agent_data) list"
  all_skill_gaps :: "string list"
  needs_resume_parsing :: bool
  needs_jd_parsing :: bool
  parsed_resume :: "agent_data option"
  recommendations :: "agent_data option"
  interview_prep :: "agent_data option"
  market_insights :: "agent_data option"

text \<open>
  What a handler leaves behind: the exception it raised, or the updated store, the
  event it returned (\<open>None\<close> or one event) and the events it passed to
  \<open>ctx.send_event\<close>, in order.
\<close>

type_synonym outcome = "exn + (store \<times> event option \<times> event list)"

definition and_then :: "exn + 'a \<Rightarrow> ('a \<Rightarrow> exn + 'b) \<Rightarrow> exn + 'b" where
  "and_then m f = (case m of Inl e \<Rightarrow> Inl e | Inr x \<Rightarrow> f x)"

text \<open>
  The idiom \<open>if first_event is None: first_event = e else: ctx.send_event(e)\<close> over a
  sequence of events: the first is returned, the others are sent.
\<close>

fun dispatch :: "event list \<Rightarrow> event option \<times> event list" where
  "dispatch [] = (None, [])"
| "dispatch (e # es) = (Some e, es)"

fun emitted :: "event option \<times> event list \<Rightarrow> event list" where
  "emitted (None, sent) = sent"
| "emitted (Some e, sent) = e # sent"

text \<open>\<open>ctx.store.get(key)\<close> with no default, on a key that may be unset.\<close>

definition store_get :: "string \<Rightarrow> 'a option \<Rightarrow> exn + 'a" where
  "store_get key v =
     (case v of None \<Rightarrow> Inl (ValueError (''Path '' @ key @ '' not found in state''))
              | Some x \<Rightarrow> Inr x)"

subsection \<open>The progress reporter\<close>

text \<open>
  The sink is \<open>broadcast_agent_progress\<close> (app/api/websocket.py), called with the
  session id, agent name, status, percentage and step description; it returns nothing and
  may raise. \<open>broadcast_workflow_progress\<close> calls it inside \<open>try ... except Exception\<close>
  and only logs a failure.
\<close>

type_synonym progress_sink =
  "string \<times> string \<times> string \<times> int \<times> string option \<Rightarrow> exn + unit"

definition broadcast_workflow_progress ::
  "progress_sink \<Rightarrow> string \<Rightarrow> string \<Rightarrow> string \<Rightarrow> int \<Rightarrow> string option \<Rightarrow> exn + unit" where
  "broadcast_workflow_progress sink sid agent_name status progress current_step =
     (case sink (sid, agent_name, status, progress, current_step) of
        Inl e \<Rightarrow> Inr ()
      | Inr u \<Rightarrow> Inr ())"

subsection \<open>The start handler\<close>

definition initial_store :: "StartAnalysisEvent \<Rightarrow> store" where
  "initial_store ev =
     \<lparr>session_id = ev_session_id ev,
      resume_id = ev_resume_id ev,
      job_ids = ev_job_ids ev,
      completed_steps = [],
      parsed_jobs = [],
      skill_matches = [],
      all_skill_gaps = [],
      needs_resume_parsing = (resume_text ev \<noteq> None),
      needs_jd_parsing = (case job_texts ev of None \<Rightarrow> False | Some jt \<Rightarrow> jt \<noteq> []),
      parsed_resume = None,
      recommendations = None,
      interview_prep = None,
      market_insights = None\<rparr>"

definition start :: "progress_sink \<Rightarrow> StartAnalysisEvent \<Rightarrow> outcome" where
  "start sink ev =
     (let s = initial_store ev;
          sid = ev_session_id ev
      in and_then
           (broadcast_workflow_progress sink sid ''workflow'' ''running'' 5
              (Some ''Starting analysis workflow''))
           (\<lambda>_.
              if \<not> needs_resume_parsing s \<and> \<not> needs_jd_parsing s then
                and_then
                  (broadcast_workflow_progress sink sid ''skill_matcher'' ''pending'' 0
                     (Some ''Waiting to start''))
                  (\<lambda>_. Inr (s,
                     dispatch (map (\<lambda>job_id. SkillMatchEvent sid (ev_resume_id ev) job_id)
                                 (ev_job_ids ev))))
              else
                and_then
                  (if needs_resume_parsing s
                   then broadcast_workflow_progress sink sid ''resume_parser'' ''pending'' 0
                          (Some ''Waiting to start'')
                   else Inr ())
                  (\<lambda>_. and_then
                     (if needs_jd_parsing s
                      then broadcast_workflow_progress sink sid ''jd_analyzer'' ''pending'' 0
                             (Some ''Waiting to start'')
                      else Inr ())
                     (\<lambda>_. Inr (s,
                        dispatch
                          ((case resume_text ev of
                              None \<Rightarrow> []
                            | Some txt \<Rightarrow> [ResumeParseEvent txt (ev_resume_id ev)]) @
                           (if needs_jd_parsing s
                            then map (\<lambda>(job_id, jd_text). JDAnalyzeEvent job_id jd_text)
                                   (case job_texts ev of None \<Rightarrow> [] | Some jt \<Rightarrow> jt)
                            else [])))))))"

subsection \<open>Phase 1: parsing\<close>

definition parse_resume :: "adapters \<Rightarrow> store \<Rightarrow> string \<Rightarrow> string \<Rightarrow> outcome" where
  "parse_resume ad s txt rid =
     (let result = process (resume_parser_execute ad) txt
      in Inr (s\<lparr>parsed_resume := Some (data result)\<rparr>,
              Some (ResumeParseResultEvent rid (data result)), []))"

definition analyze_jd :: "adapters \<Rightarrow> store \<Rightarrow> string \<Rightarrow> string \<Rightarrow> outcome" where
  "analyze_jd ad s job_id jd_text =
     (let result = process (jd_analyzer_execute ad) jd_text
      in Inr (s\<lparr>parsed_jobs := AList.update job_id (data result) (parsed_jobs s)\<rparr>,
              Some (JDAnalyzeResultEvent job_id (data result)), []))"

text \<open>The completion marker \<open>collect_phase1\<close> appends for the event it is given.\<close>

fun phase1_marker :: "event \<Rightarrow> string option" where
  "phase1_marker (ResumeParseResultEvent rid d) = Some ''resume_parsed''"
| "phase1_marker (JDAnalyzeResultEvent job_id d) = Some (''jd_parsed_'' @ job_id)"
| "phase1_marker _ = None"

definition resume_done :: "store \<Rightarrow> bool" where
  "resume_done s =
     (\<not> needs_resume_parsing s \<or> ''resume_parsed'' \<in> set (completed_steps s))"

definition jds_done :: "store \<Rightarrow> bool" where
  "jds_done s =
     (\<not> needs_jd_parsing s \<or>
      list_all (\<lambda>jid. (''jd_parsed_'' @ jid) \<in> set (completed_steps s)) (job_ids s))"

text \<open>
  \<open>collect_phase1\<close> is subscribed to the two phase-1 result events; the engine never
  hands it another one (the last case).
\<close>

definition collect_phase1 :: "progress_sink \<Rightarrow> store \<Rightarrow> event \<Rightarrow> outcome" where
  "collect_phase1 sink s ev =
     (case phase1_marker ev of
        None \<Rightarrow> Inl (OtherException ''collect_phase1: event not accepted'')
      | Some marker \<Rightarrow>
          (let s1 = s\<lparr>completed_steps := completed_steps s @ [marker]\<rparr>
           in if resume_done s1 \<and> jds_done s1 then
                and_then
                  (broadcast_workflow_progress sink (session_id s) ''workflow'' ''running'' 35
                     (Some ''Phase 1 complete - Starting skill matching''))
                  (\<lambda>_. and_then
                     (broadcast_workflow_progress sink (session_id s) ''skill_matcher''
                        ''pending'' 0 (Some ''Waiting to start''))
                     (\<lambda>_. Inr (s1,
                        dispatch (map (\<lambda>job_id. SkillMatchEvent (session_id s) (resume_id s) job_id)
                                    (job_ids s)))))
              else Inr (s1, None, [])))"

subsection \<open>Phase 2: skill matching\<close>

fun skill_name_of :: "skill_item \<Rightarrow> string" where
  "skill_name_of (SkillDict None) = ''''"
| "skill_name_of (SkillDict (Some n)) = n"
| "skill_name_of (SkillOther str) = str"

text \<open>The loop of \<open>match_skills\<close> that aggregates the skill gaps.\<close>

fun aggregate_gaps :: "string list \<Rightarrow> skill_item list \<Rightarrow> string list" where
  "aggregate_gaps all_gaps [] = all_gaps"
| "aggregate_gaps all_gaps (skill # rest) =
     (let skill_name = skill_name_of skill
      in if skill_name \<noteq> [] \<and> skill_name \<notin> set all_gaps
         then aggregate_gaps (all_gaps @ [skill_name]) rest
         else aggregate_gaps all_gaps rest)"

definition match_skills ::
  "adapters \<Rightarrow> store \<Rightarrow> string \<Rightarrow> string \<Rightarrow> string \<Rightarrow> outcome" where
  "match_skills ad s sid rid job_id =
     (let result = process (skill_matcher_execute ad) (sid, rid, job_id);
          matches = AList.update job_id (data result) (skill_matches s);
          all_gaps = aggregate_gaps (all_skill_gaps s)
                       (case missing_skills (data result) of None \<Rightarrow> [] | Some ms \<Rightarrow> ms)
      in Inr (s\<lparr>skill_matches := matches, all_skill_gaps := all_gaps\<rparr>,
              Some (SkillMatchResultEvent job_id (data result)), []))"

definition all_matched :: "store \<Rightarrow> bool" where
  "all_matched s =
     list_all (\<lambda>jid. (''matched_'' @ jid) \<in> set (completed_steps s)) (job_ids s)"

definition collect_phase2 :: "progress_sink \<Rightarrow> store \<Rightarrow> string \<Rightarrow> outcome" where
  "collect_phase2 sink s job_id =
     (let s1 = s\<lparr>completed_steps := completed_steps s @ [''matched_'' @ job_id]\<rparr>;
          sid = session_id s
      in if all_matched s1 then
           and_then
             (broadcast_workflow_progress sink sid ''workflow'' ''running'' 60
                (Some ''Phase 2 complete - Generating insights''))
             (\<lambda>_. and_then
                (broadcast_workflow_progress sink sid ''recommendation'' ''pending'' 0
                   (Some ''Waiting to start''))
                (\<lambda>_. and_then
                   (broadcast_workflow_progress sink sid ''interview_prep'' ''pending'' 0
                      (Some ''Waiting to start''))
                   (\<lambda>_. and_then
                      (broadcast_workflow_progress sink sid ''market_insights'' ''pending'' 0
                         (Some ''Waiting to start''))
                      (\<lambda>_.
                         (let skill_gaps = all_skill_gaps s;
                              first_job =
                                (case job_ids s of
                                   [] \<Rightarrow> empty_data
                                 | j # _ \<Rightarrow>
                                     (case map_of (skill_matches s) j of
                                        None \<Rightarrow> empty_data
                                      | Some d \<Rightarrow> d));
                              title = (case job_title first_job of
                                         None \<Rightarrow> ''Software Engineer''
                                       | Some t \<Rightarrow> t)
                          in Inr (s1,
                                  Some (GenerateRecommendationsEvent sid skill_gaps),
                                  [GenerateInterviewPrepEvent sid skill_gaps,
                                   GenerateMarketInsightsEvent sid title]))))))
         else Inr (s1, None, []))"

subsection \<open>Phase 3: generation\<close>

definition first_job_id :: "store \<Rightarrow> string option" where
  "first_job_id s = (case job_ids s of [] \<Rightarrow> None | j # _ \<Rightarrow> Some j)"

definition generate_recommendations ::
  "adapters \<Rightarrow> store \<Rightarrow> string \<Rightarrow> string list \<Rightarrow> outcome" where
  "generate_recommendations ad s sid skill_gaps =
     (let result = process (recommendation_execute ad)
                     (sid, resume_id s, first_job_id s, skill_gaps)
      in Inr (s\<lparr>recommendations := Some (data result)\<rparr>,
              Some (RecommendationResultEvent (data result)), []))"

definition generate_interview_prep ::
  "adapters \<Rightarrow> store \<Rightarrow> string \<Rightarrow> string list \<Rightarrow> outcome" where
  "generate_interview_prep ad s sid skill_gaps =
     (let result = process (interview_prep_execute ad)
                     (sid, resume_id s, first_job_id s, skill_gaps)
      in Inr (s\<lparr>interview_prep := Some (data result)\<rparr>,
              Some (InterviewPrepResultEvent (data result)), []))"

definition generate_market_insights ::
  "adapters \<Rightarrow> store \<Rightarrow> string \<Rightarrow> string \<Rightarrow> outcome" where
  "generate_market_insights ad s sid title =
     (let result = process (market_insights_execute ad) (sid, first_job_id s, title)
      in Inr (s\<lparr>market_insights := Some (data result)\<rparr>,
              Some (MarketInsightsResultEvent (data result)), []))"

text \<open>
  The marker \<open>finalize\<close> appends: the \<open>else\<close> branch of its \<open>isinstance\<close> chain is the
  market insights result, the third event it is subscribed to.
\<close>

fun phase3_marker :: "event \<Rightarrow> string option" where
  "phase3_marker (RecommendationResultEvent d) = Some ''recommendations''"
| "phase3_marker (InterviewPrepResultEvent d) = Some ''interview_prep''"
| "phase3_marker (MarketInsightsResultEvent d) = Some ''market_insights''"
| "phase3_marker _ = None"

definition phase3_done :: "store \<Rightarrow> bool" where
  "phase3_done s =
     list_all (\<lambda>step. step \<in> set (completed_steps s))
       [''recommendations'', ''interview_prep'', ''market_insights'']"

definition finalize :: "progress_sink \<Rightarrow> store \<Rightarrow> event \<Rightarrow> outcome" where
  "finalize sink s ev =
     (case phase3_marker ev of
        None \<Rightarrow> Inl (OtherException ''finalize: event not accepted'')
      | Some marker \<Rightarrow>
          (let s1 = s\<lparr>completed_steps := completed_steps s @ [marker]\<rparr>
           in if phase3_done s1 then
                and_then
                  (broadcast_workflow_progress sink (session_id s) ''workflow'' ''completed''
                     100 (Some ''Analysis complete''))
                  (\<lambda>_. and_then (store_get ''recommendations'' (recommendations s))
                     (\<lambda>recs. and_then (store_get ''interview_prep'' (interview_prep s))
                        (\<lambda>prep. and_then (store_get ''market_insights'' (market_insights s))
                           (\<lambda>insights. Inr (s1,
                              Some (StopEvent
                                \<lparr>r_success = True,
                                 r_session_id = session_id s,
                                 r_resume_id = resume_id s,
                                 job_matches = map snd (skill_matches s),
                                 r_recommendations = recs,
                                 r_interview_prep = prep,
                                 r_market_insights = insights\<rparr>),
                              [])))))
              else Inr (s1, None, [])))"

subsection \<open>The step registry and the runtime loop\<close>

text \<open>
  \<open>handle\<close> is the table the \<open>@step\<close> decorators build: every event type goes to the
  handler whose signature accepts it. A \<open>StopEvent\<close> has no handler of the workflow; the
  loop ends the run on it.
\<close>

fun handle :: "progress_sink \<Rightarrow> adapters \<Rightarrow> store \<Rightarrow> event \<Rightarrow> outcome" where
  "handle sink ad s (ResumeParseEvent txt rid) = parse_resume ad s txt rid"
| "handle sink ad s (JDAnalyzeEvent job_id jd_text) = analyze_jd ad s job_id jd_text"
| "handle sink ad s (ResumeParseResultEvent rid d) =
     collect_phase1 sink s (ResumeParseResultEvent rid d)"
| "handle sink ad s (JDAnalyzeResultEvent job_id d) =
     collect_phase1 sink s (JDAnalyzeResultEvent job_id d)"
| "handle sink ad s (SkillMatchEvent sid rid job_id) = match_skills ad s sid rid job_id"
| "handle sink ad s (SkillMatchResultEvent job_id d) = collect_phase2 sink s job_id"
| "handle sink ad s (GenerateRecommendationsEvent sid gaps) =
     generate_recommendations ad s sid gaps"
| "handle sink ad s (GenerateInterviewPrepEvent sid gaps) =
     generate_interview_prep ad s sid gaps"
| "handle sink ad s (GenerateMarketInsightsEvent sid title) =
     generate_market_insights ad s sid title"
| "handle sink ad s (RecommendationResultEvent d) =
     finalize sink s (RecommendationResultEvent d)"
| "handle sink ad s (InterviewPrepResultEvent d) =
     finalize sink s (InterviewPrepResultEvent d)"
| "handle sink ad s (MarketInsightsResultEvent d) =
     finalize sink s (MarketInsightsResultEvent d)"
| "handle sink ad s (StopEvent r) = Inr (s, None, [])"

text \<open>
  A run in progress: the context, the pending events, the events handed to a handler so
  far (oldest first), the result of the first \<open>StopEvent\<close> taken from the queue, and the
  exception of a handler that raised.
\<close>

record config =
  ctx :: store
  queue :: "event list"
  handled :: "event list"
  result :: "final_result option"
  failure :: "exn option"

text \<open>
  One iteration of the loop: the \<open>i\<close>-th pending event is taken and handled; what the
  handler emits is appended to the queue. A finished or failed run, and an index past
  the queue, leave the configuration as it is.
\<close>

definition step :: "progress_sink \<Rightarrow> adapters \<Rightarrow> config \<Rightarrow> nat \<Rightarrow> config" where
  "step sink ad c i =
     (if result c \<noteq> None \<or> failure c \<noteq> None \<or> length (queue c) \<le> i then c
      else
        (let ev = queue c ! i;
             others = take i (queue c) @ drop (Suc i) (queue c)
         in case ev of
              StopEvent r \<Rightarrow> c\<lparr>queue := others, result := Some r\<rparr>
            | _ \<Rightarrow>
              (case handle sink ad (ctx c) ev of
                 Inl e \<Rightarrow> c\<lparr>queue := others, handled := handled c @ [ev], failure := Some e\<rparr>
               | Inr (s', out) \<Rightarrow>
                   c\<lparr>ctx := s', queue := others @ emitted out, handled := handled c @ [ev]\<rparr>)))"

definition begin_run :: "progress_sink \<Rightarrow> StartAnalysisEvent \<Rightarrow> config" where
  "begin_run sink ev =
     (case start sink ev of
        Inl e \<Rightarrow>
          \<lparr>ctx = initial_store ev, queue = [], handled = [], result = None, failure = Some e\<rparr>
      | Inr (s, out) \<Rightarrow>
          \<lparr>ctx = s, queue = emitted out, handled = [], result = None, failure = None\<rparr>)"

definition run ::
  "progress_sink \<Rightarrow> adapters \<Rightarrow> StartAnalysisEvent \<Rightarrow> nat list \<Rightarrow> config" where
  "run sink ad ev schedule = foldl (step sink ad) (begin_run sink ev) schedule"

text \<open>The three events \<open>collect_phase2\<close> emits when it fires.\<close>

definition phase3_events :: "store \<Rightarrow> event list" where
  "phase3_events s =
     [GenerateRecommendationsEvent (session_id s) (all_skill_gaps s),
      GenerateInterviewPrepEvent (session_id s) (all_skill_gaps s),
      GenerateMarketInsightsEvent (session_id s)
        (case job_title
                (case job_ids s of
                   [] \<Rightarrow> empty_data
                 | j # _ \<Rightarrow> (case map_of (skill_matches s) j of
                                None \<Rightarrow> empty_data
                              | Some d \<Rightarrow> d)) of
           None \<Rightarrow> ''Software Engineer''
         | Some t \<Rightarrow> t)]"

subsection \<open>Concrete inputs\<close>

text \<open>
  A progress sink that always raises, adapters that always succeed, adapters that always
  raise, and start events: three pre-parsed jobs (the call made by app/api/routes.py,
  with no text to parse), no job at all, and one with a resume and two job texts.
\<close>

definition failing_sink :: progress_sink where
  "failing_sink = (\<lambda>_. Inl (OtherException ''connection closed''))"

definition stub_adapters :: adapters where
  "stub_adapters =
     \<lparr>resume_parser_execute = (\<lambda>_. Inr empty_data),
      jd_analyzer_execute = (\<lambda>_. Inr empty_data),
      skill_matcher_execute = (\<lambda>(sid, rid, jid).
         Inr \<lparr>missing_skills = Some [SkillDict (Some ''sql''), SkillOther jid, SkillDict None],
              job_title = Some (''title of '' @ jid),
              other_fields = [(''job_id'', jid)]\<rparr>),
      recommendation_execute = (\<lambda>_. Inr empty_data),
      interview_prep_execute = (\<lambda>_. Inr empty_data),
      market_insights_execute = (\<lambda>_. Inr empty_data)\<rparr>"


definition three_jobs :: StartAnalysisEvent where
  "three_jobs =
     \<lparr>ev_session_id = ''s1'', ev_resume_id = ''r1'', ev_job_ids = [''a'', ''b'', ''c''],
      resume_text = None, job_texts = None\<rparr>"

definition no_jobs :: StartAnalysisEvent where
  "no_jobs =
     \<lparr>ev_session_id = ''s1'', ev_resume_id = ''r1'', ev_job_ids = [],
      resume_text = None, job_texts = Some []\<rparr>"

definition with_texts :: StartAnalysisEvent where
  "with_texts =
     \<lparr>ev_session_id = ''s1'', ev_resume_id = ''r1'', ev_job_ids = [''a'', ''b''],
      resume_text = Some ''resume'', job_texts = Some [(''a'', ''jd a''), (''b'', ''jd b'')]\<rparr>"

text \<open>The schedule that takes the oldest pending event, \<open>n\<close> times.\<close>

definition fifo :: "nat \<Rightarrow> nat list" where
  "fifo n = replicate n 0"

subsection \<open>Invariants of a run\<close>

text \<open>
  Predicates used to state what holds in every configuration a run can reach; they are
  not part of the program. \<open>ext s s'\<close>: the store \<open>s'\<close> is a later state of \<open>s\<close>
  in the same run (the constants are kept, the markers and results only grow).
  \<open>ev_ok s e\<close>: what must already hold in the store when the event \<open>e\<close> is pending.
  \<open>data_ok s\<close>: the store is consistent. \<open>handled_ok s r\<close>: the handler outcome
  \<open>r\<close> is not an exception and keeps all of it.
\<close>

definition ext :: "store \<Rightarrow> store \<Rightarrow> bool" where
  "ext s s' =
     (job_ids s' = job_ids s \<and> session_id s' = session_id s \<and> resume_id s' = resume_id s \<and>
      needs_resume_parsing s' = needs_resume_parsing s \<and>
      needs_jd_parsing s' = needs_jd_parsing s \<and>
      set (completed_steps s) \<subseteq> set (completed_steps s') \<and>
      fst ` set (skill_matches s) \<subseteq> fst ` set (skill_matches s') \<and>
      (recommendations s \<noteq> None \<longrightarrow> recommendations s' \<noteq> None) \<and>
      (interview_prep s \<noteq> None \<longrightarrow> interview_prep s' \<noteq> None) \<and>
      (market_insights s \<noteq> None \<longrightarrow> market_insights s' \<noteq> None))"

definition result_ok :: "store \<Rightarrow> final_result \<Rightarrow> bool" where
  "result_ok s r =
     (r_success r \<and> r_session_id r = session_id s \<and> r_resume_id r = resume_id s \<and>
      length (job_matches r) = card (set (job_ids s)))"

fun ev_ok :: "store \<Rightarrow> event \<Rightarrow> bool" where
  "ev_ok s (SkillMatchEvent sid rid j) =
     (j \<in> set (job_ids s) \<and> resume_done s \<and> jds_done s)"
| "ev_ok s (SkillMatchResultEvent j d) = (j \<in> fst ` set (skill_matches s))"
| "ev_ok s (GenerateRecommendationsEvent sid gaps) = all_matched s"
| "ev_ok s (GenerateInterviewPrepEvent sid gaps) = all_matched s"
| "ev_ok s (GenerateMarketInsightsEvent sid title) = all_matched s"
| "ev_ok s (RecommendationResultEvent d) = (all_matched s \<and> recommendations s \<noteq> None)"
| "ev_ok s (InterviewPrepResultEvent d) = (all_matched s \<and> interview_prep s \<noteq> None)"
| "ev_ok s (MarketInsightsResultEvent d) = (all_matched s \<and> market_insights s \<noteq> None)"
| "ev_ok s (StopEvent r) = (all_matched s \<and> result_ok s r)"
| "ev_ok s _ = True"

definition same_run :: "StartAnalysisEvent \<Rightarrow> store \<Rightarrow> bool" where
  "same_run ev s =
     (job_ids s = ev_job_ids ev \<and> session_id s = ev_session_id ev \<and>
      resume_id s = ev_resume_id ev \<and>
      needs_resume_parsing s = (resume_text ev \<noteq> None) \<and>
      needs_jd_parsing s = (case job_texts ev of None \<Rightarrow> False | Some jt \<Rightarrow> jt \<noteq> []))"

definition data_ok :: "store \<Rightarrow> bool" where
  "data_ok s =
     (distinct (all_skill_gaps s) \<and> [] \<notin> set (all_skill_gaps s) \<and>
      distinct (map fst (skill_matches s)) \<and>
      fst ` set (skill_matches s) \<subseteq> set (job_ids s) \<and>
      (\<forall>j. (''matched_'' @ j) \<in> set (completed_steps s) \<longrightarrow> j \<in> fst ` set (skill_matches s)) \<and>
      (''recommendations'' \<in> set (completed_steps s) \<longrightarrow>
         all_matched s \<and> recommendations s \<noteq> None) \<and>
      (''interview_prep'' \<in> set (completed_steps s) \<longrightarrow>
         all_matched s \<and> interview_prep s \<noteq> None) \<and>
      (''market_insights'' \<in> set (completed_steps s) \<longrightarrow>
         all_matched s \<and> market_insights s \<noteq> None))"

definition store_ok :: "StartAnalysisEvent \<Rightarrow> store \<Rightarrow> bool" where
  "store_ok ev s = (same_run ev s \<and> data_ok s)"

definition inv :: "StartAnalysisEvent \<Rightarrow> config \<Rightarrow> bool" where
  "inv ev c =
     (store_ok ev (ctx c) \<and>
      (\<forall>e \<in> set (queue c) \<union> set (handled c). ev_ok (ctx c) e) \<and>
      (\<forall>r. result c = Some r \<longrightarrow> all_matched (ctx c) \<and> result_ok (ctx c) r) \<and>
      failure c = None)"

definition handled_ok :: "store \<Rightarrow> outcome \<Rightarrow> bool" where
  "handled_ok s r =
     (\<exists>s' out. r = Inr (s', out) \<and> ext s s' \<and> data_ok s' \<and> (\<forall>e \<in> set (emitted out). ev_ok s' e))"

subsection \<open>Notions used in the statements\<close>

text \<open>What a handler emits, without the store it leaves.\<close>

definition output_of :: "outcome \<Rightarrow> exn + (event option \<times> event list)" where
  "output_of r = (case r of Inl x \<Rightarrow> Inl x | Inr (s, out) \<Rightarrow> Inr out)"

text \<open>
  The markers the phase-1 barrier of \<open>collect_phase1\<close> waits for: the conditions
  \<open>resume_done\<close> and \<open>jds_done\<close> hold exactly when all of them are recorded.
\<close>

definition expected_phase1 :: "store \<Rightarrow> string list" where
  "expected_phase1 s =
     (if needs_resume_parsing s then [''resume_parsed''] else []) @
     (if needs_jd_parsing s then map (\<lambda>jid. ''jd_parsed_'' @ jid) (job_ids s) else [])"

text \<open>
  One handler given a sequence of events, one after the other, each on the store the
  previous one left: the events it emits for each of them. An exception ends the sequence.
\<close>

fun feed :: "(store \<Rightarrow> event \<Rightarrow> outcome) \<Rightarrow> store \<Rightarrow> event list \<Rightarrow> event list list" where
  "feed h s [] = []"
| "feed h s (e # es) =
     (case h s e of
        Inl x \<Rightarrow> []
      | Inr (s', out) \<Rightarrow> emitted out # feed h s' es)"


text \<open>
  Start events whose job texts do not cover the job ids: two jobs with a text for the
  first only, and one job with texts for two.
\<close>

definition one_text_two_jobs :: StartAnalysisEvent where
  "one_text_two_jobs =
     \<lparr>ev_session_id = ''s1'', ev_resume_id = ''r1'', ev_job_ids = [''a'', ''b''],
      resume_text = None, job_texts = Some [(''a'', ''jd a'')]\<rparr>"

definition two_texts_one_job :: StartAnalysisEvent where
  "two_texts_one_job =
     \<lparr>ev_session_id = ''s1'', ev_resume_id = ''r1'', ev_job_ids = [''a''],
      resume_text = None, job_texts = Some [(''a'', ''jd a''), (''b'', ''jd b'')]\<rparr>"

text \<open>
  Adapters whose skill matcher raises for job \<open>b\<close> and returns a match naming its job
  for every other job.
\<close>

definition matcher_fails_for_b :: adapters where
  "matcher_fails_for_b =
     \<lparr>resume_parser_execute = (\<lambda>_. Inr empty_data),
      jd_analyzer_execute = (\<lambda>_. Inr empty_data),
      skill_matcher_execute = (\<lambda>(sid, rid, jid).
         if jid = ''b'' then Inl (OtherException ''timeout'')
         else Inr \<lparr>missing_skills = None, job_title = None,
                   other_fields = [(''job_id'', jid)]\<rparr>),
      recommendation_execute = (\<lambda>_. Inr empty_data),
      interview_prep_execute = (\<lambda>_. Inr empty_data),
      market_insights_execute = (\<lambda>_. Inr empty_data)\<rparr>"

section \<open>Basic facts\<close>

lemma broadcast_returns [simp]:
  "broadcast_workflow_progress sink sid a st p cs = Inr ()"
  by (simp add: broadcast_workflow_progress_def split: sum.splits)

lemma and_then_Inr [simp]: "and_then (Inr x) f = f x"
  by (simp add: and_then_def)

lemma and_then_Inl [simp]: "and_then (Inl e) f = Inl e"
  by (simp add: and_then_def)

text \<open>The handlers with the progress notifications evaluated away.\<close>

lemma start_eq:
  "start sink ev =
     Inr (initial_store ev,
          dispatch
            (if resume_text ev = None \<and> \<not> needs_jd_parsing (initial_store ev)
             then map (\<lambda>job_id. SkillMatchEvent (ev_session_id ev) (ev_resume_id ev) job_id)
                    (ev_job_ids ev)
             else (case resume_text ev of
                     None \<Rightarrow> []
                   | Some txt \<Rightarrow> [ResumeParseEvent txt (ev_resume_id ev)]) @
                  (if needs_jd_parsing (initial_store ev)
                   then map (\<lambda>(job_id, jd_text). JDAnalyzeEvent job_id jd_text)
                          (case job_texts ev of None \<Rightarrow> [] | Some jt \<Rightarrow> jt)
                   else [])))"
  by (simp add: start_def Let_def initial_store_def)

lemma collect_phase1_eq:
  "collect_phase1 sink s ev =
     (case phase1_marker ev of
        None \<Rightarrow> Inl (OtherException ''collect_phase1: event not accepted'')
      | Some marker \<Rightarrow>
          (if resume_done (s\<lparr>completed_steps := completed_steps s @ [marker]\<rparr>) \<and>
              jds_done (s\<lparr>completed_steps := completed_steps s @ [marker]\<rparr>)
           then Inr (s\<lparr>completed_steps := completed_steps s @ [marker]\<rparr>,
                     dispatch (map (\<lambda>job_id. SkillMatchEvent (session_id s) (resume_id s) job_id)
                                 (job_ids s)))
           else Inr (s\<lparr>completed_steps := completed_steps s @ [marker]\<rparr>, None, [])))"
  by (simp add: collect_phase1_def Let_def split: option.splits)

lemma collect_phase2_eq:
  "collect_phase2 sink s job_id =
     (if all_matched (s\<lparr>completed_steps := completed_steps s @ [''matched_'' @ job_id]\<rparr>)
      then Inr (s\<lparr>completed_steps := completed_steps s @ [''matched_'' @ job_id]\<rparr>,
                dispatch (phase3_events s))
      else Inr (s\<lparr>completed_steps := completed_steps s @ [''matched_'' @ job_id]\<rparr>, None, []))"
  by (simp add: collect_phase2_def Let_def phase3_events_def)

lemma finalize_sink: "finalize sink s ev = finalize sink' s ev"
  by (simp add: finalize_def Let_def split: option.splits)

lemma handle_sink: "handle sink ad s ev = handle sink' ad s ev"
  by (cases ev) (simp_all add: collect_phase1_eq collect_phase2_eq finalize_sink [of sink _ _ sink'])

lemma step_sink: "step sink ad c i = step sink' ad c i"
proof -
  have h: "handle sink ad = handle sink' ad"
    by (intro ext) (rule handle_sink)
  show ?thesis
    unfolding step_def h by (rule refl)
qed

lemma begin_run_sink: "begin_run sink ev = begin_run sink' ev"
  by (simp add: begin_run_def start_eq)

lemma run_sink: "run sink ad ev schedule = run sink' ad ev schedule"
proof -
  have "step sink ad = step sink' ad"
    by (intro ext) (rule step_sink)
  then show ?thesis
    by (simp add: run_def begin_run_sink [of sink _ sink'])
qed

lemma step_empty_queue: "queue c = [] \<Longrightarrow> step sink ad c i = c"
  by (simp add: step_def)

lemma foldl_step_empty_queue: "queue c = [] \<Longrightarrow> foldl (step sink ad) c schedule = c"
  by (induction schedule) (simp_all add: step_empty_queue)

section \<open>Progress reporting\<close>

text \<open>
  C7. Whatever the progress sink does, \<open>broadcast_workflow_progress\<close> returns normally:
  an exception of the sink is swallowed. Hence the start handler, every other handler and
  every run behave exactly as they do with a sink that never fails; a failure of the
  progress reporter cannot fail a run.
\<close>

theorem progress_failure_is_swallowed:
  "broadcast_workflow_progress sink sid agent_name status progress current_step = Inr () \<and>
   start sink ev = start (\<lambda>_. Inr ()) ev \<and>
   handle sink ad s e = handle (\<lambda>_. Inr ()) ad s e \<and>
   run sink ad ev schedule = run (\<lambda>_. Inr ()) ad ev schedule"
proof (intro conjI)
  show "broadcast_workflow_progress sink sid agent_name status progress current_step = Inr ()"
    by (rule broadcast_returns)
  show "start sink ev = start (\<lambda>_. Inr ()) ev"
    by (simp only: start_eq)
  show "handle sink ad s e = handle (\<lambda>_. Inr ()) ad s e"
    by (rule handle_sink)
  show "run sink ad ev schedule = run (\<lambda>_. Inr ()) ad ev schedule"
    by (rule run_sink)
qed

theorem progress_failure_is_swallowed_witness:
  "failing_sink (''s1'', ''workflow'', ''running'', 5, None) = Inl (OtherException ''connection closed'') \<and>
   broadcast_workflow_progress failing_sink ''s1'' ''workflow'' ''running'' 5 None = Inr () \<and>
   failure (run failing_sink stub_adapters three_jobs (fifo 13)) = None \<and>
   result (run failing_sink stub_adapters three_jobs (fifo 13)) =
     result (run (\<lambda>_. Inr ()) stub_adapters three_jobs (fifo 13))"
proof -
  have "failure (run (\<lambda>_. Inr ()) stub_adapters three_jobs (fifo 13)) = None"
    by code_simp
  then show ?thesis
    using progress_failure_is_swallowed
      [of failing_sink "''s1''" "''workflow''" "''running''" 5 None three_jobs stub_adapters
          "initial_store three_jobs" "SkillMatchEvent ''s1'' ''r1'' ''a''" "fifo 13"]
    by (simp add: failing_sink_def)
qed

section \<open>A start event with nothing to do\<close>

text \<open>
  C10. When the start event has no resume text, no job texts (absent or the empty dict)
  and no job ids, the start handler stores the initial keys of the run context and
  returns \<open>None\<close> without sending an event. The queue of the run is then empty: no
  handler is ever invoked and no terminal event is produced, whatever the schedule.
\<close>

theorem start_with_nothing_to_do:
  assumes "resume_text ev = None"
    and "job_texts ev = None \<or> job_texts ev = Some []"
    and "ev_job_ids ev = []"
  shows "start sink ev =
           Inr (\<lparr>session_id = ev_session_id ev, resume_id = ev_resume_id ev, job_ids = [],
                 completed_steps = [], parsed_jobs = [], skill_matches = [],
                 all_skill_gaps = [], needs_resume_parsing = False,
                 needs_jd_parsing = False, parsed_resume = None, recommendations = None,
                 interview_prep = None, market_insights = None\<rparr>, None, []) \<and>
         run sink ad ev schedule =
           \<lparr>ctx = initial_store ev, queue = [], handled = [], result = None, failure = None\<rparr>"
proof -
  have jd: "needs_jd_parsing (initial_store ev) = False"
    using assms(2) by (auto simp: initial_store_def)
  have s: "start sink ev = Inr (initial_store ev, None, [])"
    using assms(1,3) jd by (simp add: start_eq)
  have "begin_run sink ev =
          \<lparr>ctx = initial_store ev, queue = [], handled = [], result = None, failure = None\<rparr>"
    by (simp add: begin_run_def s)
  then have "run sink ad ev schedule =
          \<lparr>ctx = initial_store ev, queue = [], handled = [], result = None, failure = None\<rparr>"
    by (simp add: run_def foldl_step_empty_queue)
  moreover have "initial_store ev =
           \<lparr>session_id = ev_session_id ev, resume_id = ev_resume_id ev, job_ids = [],
                 completed_steps = [], parsed_jobs = [], skill_matches = [],
                 all_skill_gaps = [], needs_resume_parsing = False,
                 needs_jd_parsing = False, parsed_resume = None, recommendations = None,
                 interview_prep = None, market_insights = None\<rparr>"
    using assms by (auto simp: initial_store_def)
  ultimately show ?thesis
    using s by simp
qed

theorem start_with_nothing_to_do_witness:
  "resume_text no_jobs = None \<and> job_texts no_jobs = Some [] \<and> ev_job_ids no_jobs = [] \<and>
   start failing_sink no_jobs =
     Inr (\<lparr>session_id = ''s1'', resume_id = ''r1'', job_ids = [],
           completed_steps = [], parsed_jobs = [], skill_matches = [],
           all_skill_gaps = [], needs_resume_parsing = False,
           needs_jd_parsing = False, parsed_resume = None, recommendations = None,
           interview_prep = None, market_insights = None\<rparr>, None, []) \<and>
   handled (run failing_sink stub_adapters no_jobs [0, 2, 1]) = [] \<and>
   queue (run failing_sink stub_adapters no_jobs [0, 2, 1]) = [] \<and>
   result (run failing_sink stub_adapters no_jobs [0, 2, 1]) = None"
  using start_with_nothing_to_do [of no_jobs failing_sink stub_adapters "[0, 2, 1]"]
  by (simp add: no_jobs_def)

section \<open>Every reachable configuration is consistent\<close>

lemma ext_refl: "ext s s"
  by (simp add: ext_def)

lemma all_matched_mono: "ext s s' \<Longrightarrow> all_matched s \<Longrightarrow> all_matched s'"
  by (auto simp: ext_def all_matched_def list_all_iff)

lemma resume_done_mono: "ext s s' \<Longrightarrow> resume_done s \<Longrightarrow> resume_done s'"
  by (auto simp: ext_def resume_done_def)

lemma jds_done_mono: "ext s s' \<Longrightarrow> jds_done s \<Longrightarrow> jds_done s'"
  by (auto simp: ext_def jds_done_def list_all_iff)

lemma result_ok_mono: "ext s s' \<Longrightarrow> result_ok s r \<Longrightarrow> result_ok s' r"
  by (simp add: ext_def result_ok_def)

lemma ev_ok_mono:
  assumes "ext s s'" and "ev_ok s e"
  shows "ev_ok s' e"
proof -
  have c: "job_ids s' = job_ids s" "fst ` set (skill_matches s) \<subseteq> fst ` set (skill_matches s')"
    "recommendations s \<noteq> None \<Longrightarrow> recommendations s' \<noteq> None"
    "interview_prep s \<noteq> None \<Longrightarrow> interview_prep s' \<noteq> None"
    "market_insights s \<noteq> None \<Longrightarrow> market_insights s' \<noteq> None"
    using assms(1) by (auto simp: ext_def)
  note m = all_matched_mono [OF assms(1)] resume_done_mono [OF assms(1)]
    jds_done_mono [OF assms(1)] result_ok_mono [OF assms(1)]
  show ?thesis
    using assms(2) c m by (cases e) auto
qed

lemma process_data_cases:
  "data (process f x) = (case f x of Inr d \<Rightarrow> d | Inl e \<Rightarrow> empty_data)"
  by (simp add: process_def split: sum.splits exn.splits)

lemma finalize_eq:
  "finalize sink s ev =
     (case phase3_marker ev of
        None \<Rightarrow> Inl (OtherException ''finalize: event not accepted'')
      | Some marker \<Rightarrow>
          (if phase3_done (s\<lparr>completed_steps := completed_steps s @ [marker]\<rparr>)
           then and_then (store_get ''recommendations'' (recommendations s))
                     (\<lambda>recs. and_then (store_get ''interview_prep'' (interview_prep s))
                        (\<lambda>prep. and_then (store_get ''market_insights'' (market_insights s))
                           (\<lambda>insights. Inr (s\<lparr>completed_steps := completed_steps s @ [marker]\<rparr>,
                              Some (StopEvent
                                \<lparr>r_success = True,
                                 r_session_id = session_id s,
                                 r_resume_id = resume_id s,
                                 job_matches = map snd (skill_matches s),
                                 r_recommendations = recs,
                                 r_interview_prep = prep,
                                 r_market_insights = insights\<rparr>),
                              []))))
           else Inr (s\<lparr>completed_steps := completed_steps s @ [marker]\<rparr>, None, [])))"
  by (simp add: finalize_def Let_def split: option.splits)

lemma ext_parse_resume: "parse_resume ad s t r = Inr (s', out) \<Longrightarrow> ext s s'"
  by (auto simp: parse_resume_def Let_def ext_def)

lemma ext_analyze_jd: "analyze_jd ad s j t = Inr (s', out) \<Longrightarrow> ext s s'"
  by (auto simp: analyze_jd_def Let_def ext_def)

lemma ext_collect_phase1: "collect_phase1 sink s e = Inr (s', out) \<Longrightarrow> ext s s'"
  by (auto simp: collect_phase1_eq ext_def split: option.splits if_splits)

lemma update_keys_mono: "fst ` set al \<subseteq> fst ` set (AList.update k v al)"
  by (simp add: dom_update subset_insertI)

lemma ext_match_skills: "match_skills ad s sid rid j = Inr (s', out) \<Longrightarrow> ext s s'"
  by (clarsimp simp: match_skills_def Let_def ext_def update_keys_mono)

lemma ext_collect_phase2: "collect_phase2 sink s j = Inr (s', out) \<Longrightarrow> ext s s'"
  by (auto simp: collect_phase2_eq ext_def split: if_splits)

lemma ext_generate_recommendations:
  "generate_recommendations ad s sid g = Inr (s', out) \<Longrightarrow> ext s s'"
  by (auto simp: generate_recommendations_def Let_def ext_def)

lemma ext_generate_interview_prep:
  "generate_interview_prep ad s sid g = Inr (s', out) \<Longrightarrow> ext s s'"
  by (auto simp: generate_interview_prep_def Let_def ext_def)

lemma ext_generate_market_insights:
  "generate_market_insights ad s sid g = Inr (s', out) \<Longrightarrow> ext s s'"
  by (auto simp: generate_market_insights_def Let_def ext_def)

lemma ext_finalize: "finalize sink s e = Inr (s', out) \<Longrightarrow> ext s s'"
  by (auto simp: finalize_eq ext_def store_get_def and_then_def
           split: option.splits if_splits)

lemma handle_ext: "handle sink ad s e = Inr (s', out) \<Longrightarrow> ext s s'"
  by (cases e)
     (auto simp: ext_refl
           dest: ext_parse_resume ext_analyze_jd ext_collect_phase1 ext_match_skills
             ext_collect_phase2 ext_generate_recommendations ext_generate_interview_prep
             ext_generate_market_insights ext_finalize)

lemma same_run_ext: "same_run ev s \<Longrightarrow> ext s s' \<Longrightarrow> same_run ev s'"
  by (simp add: same_run_def ext_def)

lemma aggregate_gaps_ok:
  "distinct g \<Longrightarrow> [] \<notin> set g \<Longrightarrow>
   distinct (aggregate_gaps g ms) \<and> [] \<notin> set (aggregate_gaps g ms)"
proof (induction ms arbitrary: g)
  case Nil
  then show ?case by simp
next
  case (Cons m ms)
  show ?case
  proof (cases "skill_name_of m \<noteq> [] \<and> skill_name_of m \<notin> set g")
    case True
    then have "distinct (g @ [skill_name_of m])" "[] \<notin> set (g @ [skill_name_of m])"
      using Cons.prems by auto
    from Cons.IH [OF this] True show ?thesis
      by (simp add: Let_def)
  next
    case False
    from Cons.IH [OF Cons.prems] False show ?thesis
      by (auto simp: Let_def)
  qed
qed

lemma marker_neq [simp]:
  "''recommendations'' \<noteq> ''matched_'' @ j"
  "''interview_prep'' \<noteq> ''matched_'' @ j"
  "''market_insights'' \<noteq> ''matched_'' @ j"
  "''resume_parsed'' \<noteq> ''matched_'' @ j"
  "''jd_parsed_'' @ k \<noteq> ''matched_'' @ j"
  "''matched_'' @ j \<noteq> ''recommendations''"
  "''matched_'' @ j \<noteq> ''interview_prep''"
  "''matched_'' @ j \<noteq> ''market_insights''"
  "''jd_parsed_'' @ k \<noteq> ''recommendations''"
  "''jd_parsed_'' @ k \<noteq> ''interview_prep''"
  "''jd_parsed_'' @ k \<noteq> ''market_insights''"
  by simp_all

lemma all_matched_keys:
  assumes "all_matched s"
    and "\<forall>j. (''matched_'' @ j) \<in> set (completed_steps s) \<longrightarrow> j \<in> fst ` set (skill_matches s)"
  shows "set (job_ids s) \<subseteq> fst ` set (skill_matches s)"
  using assms by (auto simp: all_matched_def list_all_iff)

lemma data_ok_parse_resume: "data_ok s \<Longrightarrow> data_ok (s\<lparr>parsed_resume := x\<rparr>)"
  by (simp add: data_ok_def all_matched_def)

lemma data_ok_analyze_jd: "data_ok s \<Longrightarrow> data_ok (s\<lparr>parsed_jobs := x\<rparr>)"
  by (simp add: data_ok_def all_matched_def)

lemma all_matched_append:
  "all_matched s \<Longrightarrow> all_matched (s\<lparr>completed_steps := completed_steps s @ ms\<rparr>)"
  by (auto simp: all_matched_def list_all_iff)

lemma data_ok_append:
  assumes "data_ok s"
    and "\<And>j. m = ''matched_'' @ j \<Longrightarrow> j \<in> fst ` set (skill_matches s)"
    and "m = ''recommendations'' \<Longrightarrow> all_matched s \<and> recommendations s \<noteq> None"
    and "m = ''interview_prep'' \<Longrightarrow> all_matched s \<and> interview_prep s \<noteq> None"
    and "m = ''market_insights'' \<Longrightarrow> all_matched s \<and> market_insights s \<noteq> None"
  shows "data_ok (s\<lparr>completed_steps := completed_steps s @ [m]\<rparr>)"
proof -
  let ?s = "s\<lparr>completed_steps := completed_steps s @ [m]\<rparr>"
  have am: "all_matched s \<Longrightarrow> all_matched ?s"
    by (rule all_matched_append)
  have 1: "distinct (all_skill_gaps ?s) \<and> [] \<notin> set (all_skill_gaps ?s) \<and>
      distinct (map fst (skill_matches ?s)) \<and>
      fst ` set (skill_matches ?s) \<subseteq> set (job_ids ?s)"
    using assms(1) by (simp add: data_ok_def)
  have 2: "\<forall>j. (''matched_'' @ j) \<in> set (completed_steps ?s) \<longrightarrow> j \<in> fst ` set (skill_matches ?s)"
  proof (intro allI impI)
    fix j assume "(''matched_'' @ j) \<in> set (completed_steps ?s)"
    then have "(''matched_'' @ j) \<in> set (completed_steps s) \<or> m = ''matched_'' @ j"
      by auto
    then show "j \<in> fst ` set (skill_matches ?s)"
      using assms(1,2) by (auto simp: data_ok_def)
  qed
  have 3: "''recommendations'' \<in> set (completed_steps ?s) \<longrightarrow>
         all_matched ?s \<and> recommendations ?s \<noteq> None"
  proof
    assume "''recommendations'' \<in> set (completed_steps ?s)"
    then have "''recommendations'' \<in> set (completed_steps s) \<or> m = ''recommendations''"
      by auto
    then have "all_matched s \<and> recommendations s \<noteq> None"
      using assms(1,3) by (auto simp: data_ok_def)
    then show "all_matched ?s \<and> recommendations ?s \<noteq> None"
      using am by simp
  qed
  have 4: "''interview_prep'' \<in> set (completed_steps ?s) \<longrightarrow>
         all_matched ?s \<and> interview_prep ?s \<noteq> None"
  proof
    assume "''interview_prep'' \<in> set (completed_steps ?s)"
    then have "''interview_prep'' \<in> set (completed_steps s) \<or> m = ''interview_prep''"
      by auto
    then have "all_matched s \<and> interview_prep s \<noteq> None"
      using assms(1,4) by (auto simp: data_ok_def)
    then show "all_matched ?s \<and> interview_prep ?s \<noteq> None"
      using am by simp
  qed
  have 5: "''market_insights'' \<in> set (completed_steps ?s) \<longrightarrow>
         all_matched ?s \<and> market_insights ?s \<noteq> None"
  proof
    assume "''market_insights'' \<in> set (completed_steps ?s)"
    then have "''market_insights'' \<in> set (completed_steps s) \<or> m = ''market_insights''"
      by auto
    then have "all_matched s \<and> market_insights s \<noteq> None"
      using assms(1,5) by (auto simp: data_ok_def)
    then show "all_matched ?s \<and> market_insights ?s \<noteq> None"
      using am by simp
  qed
  show ?thesis
    unfolding data_ok_def using 1 2 3 4 5 by blast
qed

lemma emitted_dispatch [simp]: "emitted (dispatch es) = es"
  by (cases es) simp_all

lemma parse_resume_ok: "data_ok s \<Longrightarrow> handled_ok s (parse_resume ad s t r)"
  by (simp add: handled_ok_def parse_resume_def Let_def data_ok_parse_resume ext_def)

lemma analyze_jd_ok: "data_ok s \<Longrightarrow> handled_ok s (analyze_jd ad s j t)"
  by (simp add: handled_ok_def analyze_jd_def Let_def data_ok_analyze_jd ext_def)

lemma collect_phase1_ok:
  assumes "data_ok s" and "phase1_marker e = Some m"
  shows "handled_ok s (collect_phase1 sink s e)"
proof -
  let ?s = "s\<lparr>completed_steps := completed_steps s @ [m]\<rparr>"
  have m: "m = ''resume_parsed'' \<or> (\<exists>k. m = ''jd_parsed_'' @ k)"
    using assms(2) by (cases e) auto
  have d: "data_ok ?s"
    using assms(1) m by (intro data_ok_append) auto
  have x: "ext s ?s"
    by (auto simp: ext_def)
  show ?thesis
  proof (cases "resume_done ?s \<and> jds_done ?s")
    case True
    then have "collect_phase1 sink s e =
        Inr (?s, dispatch (map (\<lambda>job_id. SkillMatchEvent (session_id s) (resume_id s) job_id)
                             (job_ids s)))"
      using assms(2) by (simp add: collect_phase1_eq)
    moreover have "\<forall>e' \<in> set (map (\<lambda>job_id. SkillMatchEvent (session_id s) (resume_id s) job_id)
                             (job_ids s)). ev_ok ?s e'"
      using True by auto
    ultimately show ?thesis
      using d x by (simp add: handled_ok_def)
  next
    case False
    then have "collect_phase1 sink s e = Inr (?s, None, [])"
      using assms(2) by (auto simp: collect_phase1_eq)
    then show ?thesis
      using d x by (simp add: handled_ok_def)
  qed
qed

lemma data_ok_match_skills:
  assumes "data_ok s" and "j \<in> set (job_ids s)"
  shows "data_ok (s\<lparr>skill_matches := AList.update j d (skill_matches s),
                    all_skill_gaps := aggregate_gaps (all_skill_gaps s) ms\<rparr>)"
proof -
  have g: "distinct (aggregate_gaps (all_skill_gaps s) ms) \<and>
           [] \<notin> set (aggregate_gaps (all_skill_gaps s) ms)"
    using assms(1) by (intro aggregate_gaps_ok) (simp_all add: data_ok_def)
  have k: "fst ` set (AList.update j d (skill_matches s)) = insert j (fst ` set (skill_matches s))"
    by (simp add: dom_update)
  have dk: "distinct (map fst (AList.update j d (skill_matches s)))"
    using assms(1) by (simp add: data_ok_def distinct_update)
  let ?s = "s\<lparr>skill_matches := AList.update j d (skill_matches s),
              all_skill_gaps := aggregate_gaps (all_skill_gaps s) ms\<rparr>"
  have sel: "skill_matches ?s = AList.update j d (skill_matches s)"
    "all_skill_gaps ?s = aggregate_gaps (all_skill_gaps s) ms"
    "completed_steps ?s = completed_steps s" "job_ids ?s = job_ids s"
    "recommendations ?s = recommendations s" "interview_prep ?s = interview_prep s"
    "market_insights ?s = market_insights s"
    by simp_all
  have am: "all_matched ?s = all_matched s"
    by (simp add: all_matched_def)
  have old: "fst ` set (skill_matches s) \<subseteq> set (job_ids s)"
    "\<forall>j. (''matched_'' @ j) \<in> set (completed_steps s) \<longrightarrow> j \<in> fst ` set (skill_matches s)"
    "''recommendations'' \<in> set (completed_steps s) \<longrightarrow>
         all_matched s \<and> recommendations s \<noteq> None"
    "''interview_prep'' \<in> set (completed_steps s) \<longrightarrow>
         all_matched s \<and> interview_prep s \<noteq> None"
    "''market_insights'' \<in> set (completed_steps s) \<longrightarrow>
         all_matched s \<and> market_insights s \<noteq> None"
    using assms(1) unfolding data_ok_def by blast+
  show ?thesis
    unfolding data_ok_def sel am k using g dk old assms(2) by blast
qed

lemma match_skills_ok:
  assumes "data_ok s" and "j \<in> set (job_ids s)"
  shows "handled_ok s (match_skills ad s sid rid j)"
proof -
  have "ext s (s\<lparr>skill_matches := AList.update j d (skill_matches s),
                    all_skill_gaps := g\<rparr>)" for d g
    by (simp add: ext_def update_keys_mono)
  then show ?thesis
    using data_ok_match_skills [OF assms]
    by (simp add: handled_ok_def match_skills_def Let_def dom_update)
qed

lemma collect_phase2_ok:
  assumes "data_ok s" and "j \<in> fst ` set (skill_matches s)"
  shows "handled_ok s (collect_phase2 sink s j)"
proof -
  let ?s = "s\<lparr>completed_steps := completed_steps s @ [''matched_'' @ j]\<rparr>"
  have d: "data_ok ?s"
    using assms by (intro data_ok_append) auto
  have x: "ext s ?s"
    by (auto simp: ext_def)
  show ?thesis
  proof (cases "all_matched ?s")
    case True
    then have "collect_phase2 sink s j = Inr (?s, dispatch (phase3_events s))"
      by (simp add: collect_phase2_eq)
    moreover have "\<forall>e' \<in> set (phase3_events s). ev_ok ?s e'"
      using True by (simp add: phase3_events_def)
    ultimately show ?thesis
      using d x by (simp add: handled_ok_def)
  next
    case False
    then have "collect_phase2 sink s j = Inr (?s, None, [])"
      by (simp add: collect_phase2_eq)
    then show ?thesis
      using d x by (simp add: handled_ok_def)
  qed
qed

lemma data_ok_recommendations:
  "data_ok s \<Longrightarrow> data_ok (s\<lparr>recommendations := Some x\<rparr>)"
  by (simp add: data_ok_def all_matched_def)

lemma data_ok_interview_prep:
  "data_ok s \<Longrightarrow> data_ok (s\<lparr>interview_prep := Some x\<rparr>)"
  by (simp add: data_ok_def all_matched_def)

lemma data_ok_market_insights:
  "data_ok s \<Longrightarrow> data_ok (s\<lparr>market_insights := Some x\<rparr>)"
  by (simp add: data_ok_def all_matched_def)

lemma generate_recommendations_ok:
  assumes "data_ok s" and "all_matched s"
  shows "handled_ok s (generate_recommendations ad s sid gaps)"
  using assms
  by (simp add: handled_ok_def generate_recommendations_def Let_def data_ok_recommendations
        ext_def all_matched_def)

lemma generate_interview_prep_ok:
  assumes "data_ok s" and "all_matched s"
  shows "handled_ok s (generate_interview_prep ad s sid gaps)"
  using assms
  by (simp add: handled_ok_def generate_interview_prep_def Let_def data_ok_interview_prep
        ext_def all_matched_def)

lemma generate_market_insights_ok:
  assumes "data_ok s" and "all_matched s"
  shows "handled_ok s (generate_market_insights ad s sid title)"
  using assms
  by (simp add: handled_ok_def generate_market_insights_def Let_def data_ok_market_insights
        ext_def all_matched_def)

lemma matches_keys:
  assumes "data_ok s" and "all_matched s"
  shows "fst ` set (skill_matches s) = set (job_ids s)"
proof
  show "fst ` set (skill_matches s) \<subseteq> set (job_ids s)"
    using assms(1) by (simp add: data_ok_def)
  show "set (job_ids s) \<subseteq> fst ` set (skill_matches s)"
    using assms by (intro all_matched_keys) (simp_all add: data_ok_def)
qed

lemma matches_card:
  assumes "data_ok s" and "all_matched s"
  shows "length (skill_matches s) = card (set (job_ids s))"
proof -
  have "distinct (map fst (skill_matches s))"
    using assms(1) by (simp add: data_ok_def)
  then have "card (set (map fst (skill_matches s))) = length (map fst (skill_matches s))"
    by (rule distinct_card)
  then show ?thesis
    using matches_keys [OF assms] by simp
qed

lemma phase3_marker_cases:
  "phase3_marker e = Some m \<Longrightarrow>
   (\<exists>d. e = RecommendationResultEvent d \<and> m = ''recommendations'') \<or>
   (\<exists>d. e = InterviewPrepResultEvent d \<and> m = ''interview_prep'') \<or>
   (\<exists>d. e = MarketInsightsResultEvent d \<and> m = ''market_insights'')"
  by (cases e) auto

lemma finalize_ok:
  assumes "data_ok s" and "ev_ok s e" and "phase3_marker e = Some m"
  shows "handled_ok s (finalize sink s e)"
proof -
  let ?s = "s\<lparr>completed_steps := completed_steps s @ [m]\<rparr>"
  have am: "all_matched s"
    using phase3_marker_cases [OF assms(3)] assms(2) by auto
  have d: "data_ok ?s"
    using assms(1)
  proof (rule data_ok_append)
    fix j assume "m = ''matched_'' @ j"
    then show "j \<in> fst ` set (skill_matches s)"
      using phase3_marker_cases [OF assms(3)] by auto
  next
    assume "m = ''recommendations''"
    then show "all_matched s \<and> recommendations s \<noteq> None"
      using phase3_marker_cases [OF assms(3)] assms(2) by auto
  next
    assume "m = ''interview_prep''"
    then show "all_matched s \<and> interview_prep s \<noteq> None"
      using phase3_marker_cases [OF assms(3)] assms(2) by auto
  next
    assume "m = ''market_insights''"
    then show "all_matched s \<and> market_insights s \<noteq> None"
      using phase3_marker_cases [OF assms(3)] assms(2) by auto
  qed
  have x: "ext s ?s"
    by (auto simp: ext_def)
  have ams: "all_matched ?s"
    using am by (rule all_matched_append)
  show ?thesis
  proof (cases "phase3_done ?s")
    case True
    then have "''recommendations'' \<in> set (completed_steps ?s)"
      "''interview_prep'' \<in> set (completed_steps ?s)"
      "''market_insights'' \<in> set (completed_steps ?s)"
      by (simp_all add: phase3_done_def)
    then have "recommendations ?s \<noteq> None" "interview_prep ?s \<noteq> None"
      "market_insights ?s \<noteq> None"
      using d unfolding data_ok_def by blast+
    then obtain recs prep ins where v: "recommendations s = Some recs"
      "interview_prep s = Some prep" "market_insights s = Some ins"
      by auto
    let ?r = "\<lparr>r_success = True, r_session_id = session_id s, r_resume_id = resume_id s,
               job_matches = map snd (skill_matches s), r_recommendations = recs,
               r_interview_prep = prep, r_market_insights = ins\<rparr>"
    have f: "finalize sink s e = Inr (?s, Some (StopEvent ?r), [])"
      using True assms(3) v by (simp add: finalize_eq store_get_def)
    have "result_ok ?s ?r"
      using matches_card [OF assms(1) am] by (simp add: result_ok_def)
    then show ?thesis
      using f d x ams by (simp add: handled_ok_def)
  next
    case False
    then have "finalize sink s e = Inr (?s, None, [])"
      using assms(3) by (simp add: finalize_eq)
    then show ?thesis
      using d x by (simp add: handled_ok_def)
  qed
qed

lemma handle_ok:
  assumes "data_ok s" and "ev_ok s e"
  shows "handled_ok s (handle sink ad s e)"
proof (cases e)
  case (ResumeParseEvent t r)
  then show ?thesis using assms(1) by (simp add: parse_resume_ok)
next
  case (ResumeParseResultEvent r d)
  then show ?thesis using assms(1) by (simp add: collect_phase1_ok)
next
  case (JDAnalyzeEvent j t)
  then show ?thesis using assms(1) by (simp add: analyze_jd_ok)
next
  case (JDAnalyzeResultEvent j d)
  then show ?thesis using assms(1) by (simp add: collect_phase1_ok)
next
  case (SkillMatchEvent sid rid j)
  then show ?thesis using assms by (simp add: match_skills_ok)
next
  case (SkillMatchResultEvent j d)
  then show ?thesis using assms by (simp add: collect_phase2_ok)
next
  case (GenerateRecommendationsEvent sid g)
  then show ?thesis using assms by (simp add: generate_recommendations_ok)
next
  case (GenerateInterviewPrepEvent sid g)
  then show ?thesis using assms by (simp add: generate_interview_prep_ok)
next
  case (GenerateMarketInsightsEvent sid t)
  then show ?thesis using assms by (simp add: generate_market_insights_ok)
next
  case (RecommendationResultEvent d)
  then show ?thesis using assms finalize_ok [of s e "''recommendations''" sink] by simp
next
  case (InterviewPrepResultEvent d)
  then show ?thesis using assms finalize_ok [of s e "''interview_prep''" sink] by simp
next
  case (MarketInsightsResultEvent d)
  then show ?thesis using assms finalize_ok [of s e "''market_insights''" sink] by simp
next
  case (StopEvent r)
  then show ?thesis using assms(1) by (simp add: handled_ok_def ext_refl)
qed

lemma others_subset: "set (take i q @ drop (Suc i) q) \<subseteq> set q"
  using set_take_subset [of i q] set_drop_subset [of "Suc i" q] by auto

lemma step_cases:
  obtains (idle) "step sink ad c i = c"
  | (stop) r where "i < length (queue c)" "queue c ! i = StopEvent r"
      "step sink ad c i = c\<lparr>queue := take i (queue c) @ drop (Suc i) (queue c), result := Some r\<rparr>"
  | (raised) x where "i < length (queue c)" "handle sink ad (ctx c) (queue c ! i) = Inl x"
      "step sink ad c i =
         c\<lparr>queue := take i (queue c) @ drop (Suc i) (queue c),
           handled := handled c @ [queue c ! i], failure := Some x\<rparr>"
  | (handled) s' out where "i < length (queue c)"
      "handle sink ad (ctx c) (queue c ! i) = Inr (s', out)"
      "step sink ad c i =
         c\<lparr>ctx := s', queue := take i (queue c) @ drop (Suc i) (queue c) @ emitted out,
           handled := handled c @ [queue c ! i]\<rparr>"
proof (cases "result c \<noteq> None \<or> failure c \<noteq> None \<or> length (queue c) \<le> i")
  case True
  then have "step sink ad c i = c" by (simp add: step_def)
  then show ?thesis by (rule idle)
next
  case False
  then have i: "i < length (queue c)" by simp
  show ?thesis
  proof (cases "\<exists>r. queue c ! i = StopEvent r")
    case True
    then obtain r where r: "queue c ! i = StopEvent r" by blast
    then have "step sink ad c i =
        c\<lparr>queue := take i (queue c) @ drop (Suc i) (queue c), result := Some r\<rparr>"
      using False by (simp add: step_def Let_def)
    with i r show ?thesis by (rule stop)
  next
    case ns: False
    show ?thesis
    proof (cases "handle sink ad (ctx c) (queue c ! i)")
      case (Inl x)
      then have "step sink ad c i =
         c\<lparr>queue := take i (queue c) @ drop (Suc i) (queue c),
           handled := handled c @ [queue c ! i], failure := Some x\<rparr>"
        using False ns by (cases "queue c ! i") (simp_all add: step_def Let_def)
      with i Inl show ?thesis by (rule raised)
    next
      case (Inr p)
      obtain s' out where p: "p = (s', out)" by (cases p) auto
      have "step sink ad c i =
         c\<lparr>ctx := s', queue := take i (queue c) @ drop (Suc i) (queue c) @ emitted out,
           handled := handled c @ [queue c ! i]\<rparr>"
        using False ns Inr p by (cases "queue c ! i") (simp_all add: step_def Let_def)
      with i Inr p show ?thesis using handled by blast
    qed
  qed
qed

lemma inv_queue: "inv ev c \<Longrightarrow> e \<in> set (queue c) \<Longrightarrow> ev_ok (ctx c) e"
  unfolding inv_def by blast

lemma inv_step:
  assumes "inv ev c"
  shows "inv ev (step sink ad c i)"
proof (cases rule: step_cases [where sink = sink and ad = ad and c = c and i = i])
  case idle
  then show ?thesis using assms by simp
next
  case (stop r)
  have "StopEvent r \<in> set (queue c)"
    using stop(1,2) nth_mem [of i "queue c"] by simp
  then have "ev_ok (ctx c) (StopEvent r)"
    using assms by (rule inv_queue [rotated])
  then show ?thesis
    using assms others_subset [of i "queue c"] unfolding stop(3) inv_def by auto
next
  case (raised x)
  have "queue c ! i \<in> set (queue c)"
    using raised(1) by simp
  then have "ev_ok (ctx c) (queue c ! i)"
    using assms by (rule inv_queue [rotated])
  then have "handled_ok (ctx c) (handle sink ad (ctx c) (queue c ! i))"
    using assms by (intro handle_ok) (simp_all add: inv_def store_ok_def)
  then show ?thesis
    using raised(2) by (simp add: handled_ok_def)
next
  case (handled s' out)
  have q: "queue c ! i \<in> set (queue c)"
    using handled(1) by simp
  then have e: "ev_ok (ctx c) (queue c ! i)"
    using assms by (rule inv_queue [rotated])
  then have "handled_ok (ctx c) (handle sink ad (ctx c) (queue c ! i))"
    using assms by (intro handle_ok) (simp_all add: inv_def store_ok_def)
  then have h: "ext (ctx c) s'" "data_ok s'" "\<forall>e \<in> set (emitted out). ev_ok s' e"
    using handled(2) by (simp_all add: handled_ok_def)
  have 1: "store_ok ev s'"
    using assms h(1,2) same_run_ext [of ev "ctx c" s'] by (simp add: inv_def store_ok_def)
  have old: "\<forall>e \<in> set (queue c) \<union> set (handled c). ev_ok s' e"
    using assms ev_ok_mono [OF h(1)] unfolding inv_def by blast
  have 2: "\<forall>e \<in> set (take i (queue c) @ drop (Suc i) (queue c) @ emitted out) \<union>
                 set (handled c @ [queue c ! i]). ev_ok s' e"
  proof
    fix e
    assume "e \<in> set (take i (queue c) @ drop (Suc i) (queue c) @ emitted out) \<union>
                 set (handled c @ [queue c ! i])"
    then have "e \<in> set (queue c) \<union> set (handled c) \<or> e \<in> set (emitted out)"
      using others_subset [of i "queue c"] q by auto
    then show "ev_ok s' e"
      using old h(3) by blast
  qed
  have 3: "\<forall>r. result c = Some r \<longrightarrow> all_matched s' \<and> result_ok s' r"
    using assms all_matched_mono [OF h(1)] result_ok_mono [OF h(1)] by (simp add: inv_def)
  have 4: "failure c = None"
    using assms by (simp add: inv_def)
  show ?thesis
    unfolding handled(3) inv_def using 1 2 3 4 by simp
qed

lemma data_ok_initial: "data_ok (initial_store ev)"
  by (simp add: data_ok_def initial_store_def)

lemma same_run_initial: "same_run ev (initial_store ev)"
  by (simp add: same_run_def initial_store_def)

lemma begin_run_eq:
  "begin_run sink ev =
     \<lparr>ctx = initial_store ev,
      queue = (if resume_text ev = None \<and> \<not> needs_jd_parsing (initial_store ev)
             then map (\<lambda>job_id. SkillMatchEvent (ev_session_id ev) (ev_resume_id ev) job_id)
                    (ev_job_ids ev)
             else (case resume_text ev of
                     None \<Rightarrow> []
                   | Some txt \<Rightarrow> [ResumeParseEvent txt (ev_resume_id ev)]) @
                  (if needs_jd_parsing (initial_store ev)
                   then map (\<lambda>(job_id, jd_text). JDAnalyzeEvent job_id jd_text)
                          (case job_texts ev of None \<Rightarrow> [] | Some jt \<Rightarrow> jt)
                   else [])),
      handled = [], result = None, failure = None\<rparr>"
  by (simp add: begin_run_def start_eq)

lemma inv_begin_run: "inv ev (begin_run sink ev)"
proof -
  have "\<forall>e \<in> set (queue (begin_run sink ev)). ev_ok (initial_store ev) e"
  proof (cases "resume_text ev = None \<and> \<not> needs_jd_parsing (initial_store ev)")
    case True
    then have "resume_done (initial_store ev)" "jds_done (initial_store ev)"
      by (simp_all add: resume_done_def jds_done_def initial_store_def)
    then show ?thesis
      using True by (auto simp: begin_run_eq initial_store_def)
  next
    case False
    then show ?thesis
      by (auto simp: begin_run_eq split: option.splits if_splits)
  qed
  then show ?thesis
    using data_ok_initial [of ev] same_run_initial [of ev]
    by (simp add: inv_def store_ok_def begin_run_eq)
qed

lemma inv_foldl_step: "inv ev c \<Longrightarrow> inv ev (foldl (step sink ad) c schedule)"
  by (induction schedule arbitrary: c) (simp_all add: inv_step)

lemma inv_run: "inv ev (run sink ad ev schedule)"
  by (simp add: run_def inv_foldl_step inv_begin_run)

section \<open>The aggregated skill gaps\<close>

lemma aggregate_gaps_set:
  "set (aggregate_gaps g ms) = set g \<union> {n \<in> skill_name_of ` set ms. n \<noteq> []}"
  by (induction ms arbitrary: g) (auto simp: Let_def)

lemma aggregate_gaps_prefix: "\<exists>new. aggregate_gaps g ms = g @ new"
proof (induction ms arbitrary: g)
  case Nil
  then show ?case by simp
next
  case (Cons m ms)
  show ?case
  proof (cases "skill_name_of m \<noteq> [] \<and> skill_name_of m \<notin> set g")
    case True
    obtain new where "aggregate_gaps (g @ [skill_name_of m]) ms = (g @ [skill_name_of m]) @ new"
      using Cons.IH by blast
    then show ?thesis using True by (simp add: Let_def)
  next
    case False
    obtain new where "aggregate_gaps g ms = g @ new"
      using Cons.IH by blast
    then show ?thesis using False by (auto simp: Let_def)
  qed
qed

lemma inv_gaps: "inv ev c \<Longrightarrow> distinct (all_skill_gaps (ctx c)) \<and> [] \<notin> set (all_skill_gaps (ctx c))"
  by (simp add: inv_def store_ok_def data_ok_def)

text \<open>
  C9. In every configuration a run reaches, so after every invocation of
  \<open>match_skills\<close>, the list \<open>all_skill_gaps\<close> of the run context has no duplicate
  and no empty name. One invocation, on a store whose list has this property, never
  raises, keeps the names already there in their order and appends exactly the non-empty
  names of the missing skills that were not yet present, each once.
\<close>

theorem skill_gaps_have_no_duplicates:
  "distinct (all_skill_gaps (ctx (run sink ad ev schedule))) \<and>
   [] \<notin> set (all_skill_gaps (ctx (run sink ad ev schedule))) \<and>
   (distinct (all_skill_gaps s) \<and> [] \<notin> set (all_skill_gaps s) \<longrightarrow>
      (\<exists>s' d new. match_skills ad s sid rid job_id = Inr (s', Some (SkillMatchResultEvent job_id d), []) \<and>
         all_skill_gaps s' = all_skill_gaps s @ new \<and>
         distinct (all_skill_gaps s') \<and> [] \<notin> set (all_skill_gaps s') \<and>
         set (all_skill_gaps s') =
           set (all_skill_gaps s) \<union>
           {n \<in> skill_name_of ` set (case missing_skills d of None \<Rightarrow> [] | Some ms \<Rightarrow> ms). n \<noteq> []}))"
proof (intro conjI impI)
  show "distinct (all_skill_gaps (ctx (run sink ad ev schedule)))"
    using inv_gaps [OF inv_run] by blast
  show "[] \<notin> set (all_skill_gaps (ctx (run sink ad ev schedule)))"
    using inv_gaps [OF inv_run] by blast
next
  assume a: "distinct (all_skill_gaps s) \<and> [] \<notin> set (all_skill_gaps s)"
  define d where "d = data (process (skill_matcher_execute ad) (sid, rid, job_id))"
  define ms where "ms = (case missing_skills d of None \<Rightarrow> [] | Some ms \<Rightarrow> ms)"
  define s' where "s' = s\<lparr>skill_matches := AList.update job_id d (skill_matches s),
                            all_skill_gaps := aggregate_gaps (all_skill_gaps s) ms\<rparr>"
  have 1: "match_skills ad s sid rid job_id = Inr (s', Some (SkillMatchResultEvent job_id d), [])"
    by (simp add: match_skills_def Let_def d_def ms_def s'_def)
  obtain new where 2: "all_skill_gaps s' = all_skill_gaps s @ new"
    using aggregate_gaps_prefix [of "all_skill_gaps s" ms] by (auto simp: s'_def)
  have 3: "distinct (all_skill_gaps s') \<and> [] \<notin> set (all_skill_gaps s')"
    using a aggregate_gaps_ok [of "all_skill_gaps s" ms] by (simp add: s'_def)
  have 4: "set (all_skill_gaps s') = set (all_skill_gaps s) \<union>
           {n \<in> skill_name_of ` set (case missing_skills d of None \<Rightarrow> [] | Some ms \<Rightarrow> ms). n \<noteq> []}"
    using aggregate_gaps_set [of "all_skill_gaps s" ms] by (simp add: s'_def ms_def)
  show "\<exists>s' d new. match_skills ad s sid rid job_id = Inr (s', Some (SkillMatchResultEvent job_id d), []) \<and>
         all_skill_gaps s' = all_skill_gaps s @ new \<and>
         distinct (all_skill_gaps s') \<and> [] \<notin> set (all_skill_gaps s') \<and>
         set (all_skill_gaps s') =
           set (all_skill_gaps s) \<union>
           {n \<in> skill_name_of ` set (case missing_skills d of None \<Rightarrow> [] | Some ms \<Rightarrow> ms). n \<noteq> []}"
    using 1 2 3 4 by blast
qed

theorem skill_gaps_have_no_duplicates_witness:
  "all_skill_gaps (ctx (run failing_sink stub_adapters three_jobs (fifo 13))) =
     [''sql'', ''a'', ''b'', ''c''] \<and>
   distinct (all_skill_gaps (ctx (run failing_sink stub_adapters three_jobs (fifo 13)))) \<and>
   distinct (all_skill_gaps (initial_store three_jobs\<lparr>all_skill_gaps := [''a'', ''sql'']\<rparr>)) \<and>
   [] \<notin> set (all_skill_gaps (initial_store three_jobs\<lparr>all_skill_gaps := [''a'', ''sql'']\<rparr>)) \<and>
   (\<exists>s' d new.
      match_skills stub_adapters (initial_store three_jobs\<lparr>all_skill_gaps := [''a'', ''sql'']\<rparr>)
        ''s1'' ''r1'' ''b'' = Inr (s', Some (SkillMatchResultEvent ''b'' d), []) \<and>
      all_skill_gaps s' = [''a'', ''sql''] @ new \<and>
      distinct (all_skill_gaps s') \<and> [] \<notin> set (all_skill_gaps s'))"
proof -
  let ?s = "initial_store three_jobs\<lparr>all_skill_gaps := [''a'', ''sql'']\<rparr>"
  have h: "distinct (all_skill_gaps ?s) \<and> [] \<notin> set (all_skill_gaps ?s)"
    by simp
  have e: "all_skill_gaps (ctx (run failing_sink stub_adapters three_jobs (fifo 13))) =
     [''sql'', ''a'', ''b'', ''c'']"
    by code_simp
  note t = skill_gaps_have_no_duplicates
    [of failing_sink stub_adapters three_jobs "fifo 13" ?s "''s1''" "''r1''" "''b''"]
  from t h have "\<exists>s' d new.
      match_skills stub_adapters ?s ''s1'' ''r1'' ''b'' =
        Inr (s', Some (SkillMatchResultEvent ''b'' d), []) \<and>
      all_skill_gaps s' = all_skill_gaps ?s @ new \<and>
      distinct (all_skill_gaps s') \<and> [] \<notin> set (all_skill_gaps s')"
    by blast
  then show ?thesis
    using t h e by simp
qed

section \<open>Phase order\<close>

lemmas handler_defs =
  parse_resume_def analyze_jd_def collect_phase1_eq match_skills_def collect_phase2_eq
  phase3_events_def generate_recommendations_def generate_interview_prep_def
  generate_market_insights_def finalize_eq Let_def and_then_def store_get_def

lemma handle_emits_match:
  "handle sink ad s e = Inr (s', out) \<Longrightarrow> SkillMatchEvent sid rid j \<in> set (emitted out) \<Longrightarrow>
   resume_done s' \<and> jds_done s'"
  by (cases e) (auto simp: handler_defs split: option.splits if_splits)

lemma handle_emits_generate:
  "handle sink ad s e = Inr (s', out) \<Longrightarrow>
   GenerateRecommendationsEvent sid gaps \<in> set (emitted out) \<or>
   GenerateInterviewPrepEvent sid gaps \<in> set (emitted out) \<or>
   GenerateMarketInsightsEvent sid title \<in> set (emitted out) \<Longrightarrow>
   all_matched s'"
  by (cases e) (auto simp: handler_defs split: option.splits if_splits)

lemma start_emits_match:
  "start sink ev = Inr (s0, out0) \<Longrightarrow> SkillMatchEvent sid rid j \<in> set (emitted out0) \<Longrightarrow>
   \<not> needs_resume_parsing s0 \<and> \<not> needs_jd_parsing s0"
  by (auto simp: start_eq initial_store_def split: option.splits if_splits)

lemma inv_seen: "inv ev c \<Longrightarrow> e \<in> set (queue c) \<union> set (handled c) \<Longrightarrow> ev_ok (ctx c) e"
  unfolding inv_def by blast

text \<open>
  C5. Work of the next phase is never pending before the barrier of the phase holds.
  In every configuration a run reaches, under every schedule: a \<open>SkillMatchEvent\<close> that
  is pending or has been handled implies the phase-1 condition \<open>resume_done\<close> and
  \<open>jds_done\<close> (both hold trivially when phase 1 is skipped), and a pending or handled
  generation event implies that a \<open>matched_\<close> marker is recorded for every job id.
  At the moment of emission: a handler that emits a \<open>SkillMatchEvent\<close> leaves a store
  in which the phase-1 condition holds, a handler that emits a generation event leaves one
  in which all jobs are matched, and the start handler emits a \<open>SkillMatchEvent\<close> only
  when neither the resume nor a job description needs parsing.
\<close>

theorem next_phase_only_after_barrier:
  assumes "c = run sink ad ev schedule"
  shows "(SkillMatchEvent sid rid j \<in> set (queue c) \<union> set (handled c) \<longrightarrow>
            resume_done (ctx c) \<and> jds_done (ctx c)) \<and>
         (GenerateRecommendationsEvent sid gaps \<in> set (queue c) \<union> set (handled c) \<or>
          GenerateInterviewPrepEvent sid gaps \<in> set (queue c) \<union> set (handled c) \<or>
          GenerateMarketInsightsEvent sid title \<in> set (queue c) \<union> set (handled c) \<longrightarrow>
            all_matched (ctx c)) \<and>
         (handle sink ad s e = Inr (s', out) \<and> SkillMatchEvent sid rid j \<in> set (emitted out) \<longrightarrow>
            resume_done s' \<and> jds_done s') \<and>
         (handle sink ad s e = Inr (s', out) \<and>
          (GenerateRecommendationsEvent sid gaps \<in> set (emitted out) \<or>
           GenerateInterviewPrepEvent sid gaps \<in> set (emitted out) \<or>
           GenerateMarketInsightsEvent sid title \<in> set (emitted out)) \<longrightarrow>
            all_matched s') \<and>
         (start sink ev = Inr (s0, out0) \<and> SkillMatchEvent sid rid j \<in> set (emitted out0) \<longrightarrow>
            \<not> needs_resume_parsing s0 \<and> \<not> needs_jd_parsing s0)"
proof -
  have i: "inv ev c"
    unfolding assms by (rule inv_run)
  have 1: "SkillMatchEvent sid rid j \<in> set (queue c) \<union> set (handled c) \<longrightarrow>
            resume_done (ctx c) \<and> jds_done (ctx c)"
    using inv_seen [OF i, of "SkillMatchEvent sid rid j"] by simp
  have 2: "GenerateRecommendationsEvent sid gaps \<in> set (queue c) \<union> set (handled c) \<or>
          GenerateInterviewPrepEvent sid gaps \<in> set (queue c) \<union> set (handled c) \<or>
          GenerateMarketInsightsEvent sid title \<in> set (queue c) \<union> set (handled c) \<longrightarrow>
            all_matched (ctx c)"
    using inv_seen [OF i, of "GenerateRecommendationsEvent sid gaps"]
      inv_seen [OF i, of "GenerateInterviewPrepEvent sid gaps"]
      inv_seen [OF i, of "GenerateMarketInsightsEvent sid title"]
    by auto
  have 3: "handle sink ad s e = Inr (s', out) \<and> SkillMatchEvent sid rid j \<in> set (emitted out) \<longrightarrow>
            resume_done s' \<and> jds_done s'"
    using handle_emits_match by blast
  have 4: "handle sink ad s e = Inr (s', out) \<and>
          (GenerateRecommendationsEvent sid gaps \<in> set (emitted out) \<or>
           GenerateInterviewPrepEvent sid gaps \<in> set (emitted out) \<or>
           GenerateMarketInsightsEvent sid title \<in> set (emitted out)) \<longrightarrow>
            all_matched s'"
    using handle_emits_generate by blast
  have 5: "start sink ev = Inr (s0, out0) \<and> SkillMatchEvent sid rid j \<in> set (emitted out0) \<longrightarrow>
            \<not> needs_resume_parsing s0 \<and> \<not> needs_jd_parsing s0"
    using start_emits_match by blast
  show ?thesis
    using 1 2 3 4 5 by blast
qed

theorem next_phase_only_after_barrier_witness:
  "queue (run failing_sink stub_adapters with_texts (fifo 6)) =
     [SkillMatchEvent ''s1'' ''r1'' ''a'', SkillMatchEvent ''s1'' ''r1'' ''b''] \<and>
   resume_done (ctx (run failing_sink stub_adapters with_texts (fifo 6))) \<and>
   jds_done (ctx (run failing_sink stub_adapters with_texts (fifo 6))) \<and>
   queue (run failing_sink stub_adapters three_jobs (fifo 6)) =
     [GenerateRecommendationsEvent ''s1'' [''sql'', ''a'', ''b'', ''c''],
      GenerateInterviewPrepEvent ''s1'' [''sql'', ''a'', ''b'', ''c''],
      GenerateMarketInsightsEvent ''s1'' ''title of a''] \<and>
   all_matched (ctx (run failing_sink stub_adapters three_jobs (fifo 6)))"
proof -
  have q1: "queue (run failing_sink stub_adapters with_texts (fifo 6)) =
     [SkillMatchEvent ''s1'' ''r1'' ''a'', SkillMatchEvent ''s1'' ''r1'' ''b'']"
    by code_simp
  have q2: "queue (run failing_sink stub_adapters three_jobs (fifo 6)) =
     [GenerateRecommendationsEvent ''s1'' [''sql'', ''a'', ''b'', ''c''],
      GenerateInterviewPrepEvent ''s1'' [''sql'', ''a'', ''b'', ''c''],
      GenerateMarketInsightsEvent ''s1'' ''title of a'']"
    by code_simp
  have a: "resume_done (ctx (run failing_sink stub_adapters with_texts (fifo 6))) \<and>
           jds_done (ctx (run failing_sink stub_adapters with_texts (fifo 6)))"
    using next_phase_only_after_barrier
      [OF refl, where sink = failing_sink and ad = stub_adapters and ev = with_texts
        and schedule = "fifo 6" and sid = "''s1''" and rid = "''r1''" and j = "''a''"]
      q1
    by simp
  have b: "all_matched (ctx (run failing_sink stub_adapters three_jobs (fifo 6)))"
    using next_phase_only_after_barrier
      [OF refl, where sink = failing_sink and ad = stub_adapters and ev = three_jobs
        and schedule = "fifo 6" and sid = "''s1''" and gaps = "[''sql'', ''a'', ''b'', ''c'']"]
      q2
    by simp
  show ?thesis
    using q1 q2 a b by simp
qed

section \<open>The terminal event\<close>

lemma finalize_fires:
  assumes "data_ok s" and "ev_ok s e" and "phase3_marker e = Some m"
    and "phase3_done (s\<lparr>completed_steps := completed_steps s @ [m]\<rparr>)"
  shows "\<exists>recs prep ins.
           recommendations s = Some recs \<and> interview_prep s = Some prep \<and>
           market_insights s = Some ins \<and> all_matched s \<and>
           handle sink ad s e =
             Inr (s\<lparr>completed_steps := completed_steps s @ [m]\<rparr>,
                  Some (StopEvent
                    \<lparr>r_success = True, r_session_id = session_id s, r_resume_id = resume_id s,
                     job_matches = map snd (skill_matches s), r_recommendations = recs,
                     r_interview_prep = prep, r_market_insights = ins\<rparr>),
                  [])"
proof -
  let ?s = "s\<lparr>completed_steps := completed_steps s @ [m]\<rparr>"
  note mc = phase3_marker_cases [OF assms(3)]
  have am: "all_matched s"
    using mc assms(2) by auto
  have d: "data_ok ?s"
    using assms(1)
  proof (rule data_ok_append)
    fix j assume "m = ''matched_'' @ j"
    then show "j \<in> fst ` set (skill_matches s)"
      using mc by auto
  next
    assume "m = ''recommendations''"
    then show "all_matched s \<and> recommendations s \<noteq> None"
      using mc assms(2) by auto
  next
    assume "m = ''interview_prep''"
    then show "all_matched s \<and> interview_prep s \<noteq> None"
      using mc assms(2) by auto
  next
    assume "m = ''market_insights''"
    then show "all_matched s \<and> market_insights s \<noteq> None"
      using mc assms(2) by auto
  qed
  have "''recommendations'' \<in> set (completed_steps ?s)"
    "''interview_prep'' \<in> set (completed_steps ?s)"
    "''market_insights'' \<in> set (completed_steps ?s)"
    using assms(4) by (simp_all add: phase3_done_def)
  then have "recommendations ?s \<noteq> None" "interview_prep ?s \<noteq> None"
    "market_insights ?s \<noteq> None"
    using d unfolding data_ok_def by blast+
  then obtain recs prep ins where v: "recommendations s = Some recs"
    "interview_prep s = Some prep" "market_insights s = Some ins"
    by auto
  have h: "handle sink ad s e = finalize sink s e"
    using mc by auto
  have "finalize sink s e =
             Inr (?s,
                  Some (StopEvent
                    \<lparr>r_success = True, r_session_id = session_id s, r_resume_id = resume_id s,
                     job_matches = map snd (skill_matches s), r_recommendations = recs,
                     r_interview_prep = prep, r_market_insights = ins\<rparr>),
                  [])"
    using assms(3,4) v by (simp add: finalize_eq store_get_def)
  then show ?thesis
    using v am h by simp
qed

lemma inv_result:
  "inv ev c \<Longrightarrow> result c = Some r \<Longrightarrow> length (job_matches r) = card (set (ev_job_ids ev))"
  by (simp add: inv_def store_ok_def same_run_def result_ok_def)

text \<open>
  C6, as the specification states it, fails: the match entries of the terminal result
  are not keyed by job id. \<open>finalize\<close> puts \<open>list(skill_matches.values())\<close> into
  the result, a list without keys; the keys stay in the run context. The position of a
  job's entry is the position at which its key entered the dict, which depends on the
  order in which the matches finished, and the entry of a job whose matcher raised is the
  empty dict, which names no job. Three jobs, the matcher failing for job \<open>b\<close>, under
  two schedules: the same three entries, in different positions.
\<close>

theorem job_matches_is_a_list_without_keys:
  "map job_matches
     (case result (run failing_sink matcher_fails_for_b three_jobs (fifo 13)) of
        None \<Rightarrow> [] | Some r \<Rightarrow> [r]) =
     [[\<lparr>missing_skills = None, job_title = None, other_fields = [(''job_id'', ''a'')]\<rparr>,
       empty_data,
       \<lparr>missing_skills = None, job_title = None, other_fields = [(''job_id'', ''c'')]\<rparr>]] \<and>
   map job_matches
     (case result (run failing_sink matcher_fails_for_b three_jobs ([1, 0, 0] @ fifo 10)) of
        None \<Rightarrow> [] | Some r \<Rightarrow> [r]) =
     [[empty_data,
       \<lparr>missing_skills = None, job_title = None, other_fields = [(''job_id'', ''a'')]\<rparr>,
       \<lparr>missing_skills = None, job_title = None, other_fields = [(''job_id'', ''c'')]\<rparr>]] \<and>
   map fst (skill_matches (ctx (run failing_sink matcher_fails_for_b three_jobs (fifo 13)))) =
     [''a'', ''b'', ''c''] \<and>
   map fst (skill_matches
     (ctx (run failing_sink matcher_fails_for_b three_jobs ([1, 0, 0] @ fifo 10)))) =
     [''b'', ''a'', ''c'']"
  by code_simp

text \<open>
  C6, amended. Let a phase-3 result event be pending in a configuration reached by a run, and let
  its marker complete the three markers \<open>recommendations\<close>, \<open>interview_prep\<close> and
  \<open>market_insights\<close>. Then \<open>finalize\<close> returns the \<open>StopEvent\<close>; its result has
  \<open>success\<close> set, the session and resume ids of the start event, as \<open>job_matches\<close> the
  values of the \<open>skill_matches\<close> dict of the run context, whose keys are distinct and are
  exactly the job ids of the start event (one entry per job id: as many entries as there
  are different job ids, in the order of the dict, and without the keys), and the
  recommendations, interview prep and market insights stored in the run context. The
  result on which a run ends has one entry per job id too.
\<close>

theorem finalize_emits_aggregated_result:
  assumes "c = run sink ad ev schedule"
    and "e \<in> set (queue c)"
    and "phase3_marker e = Some m"
    and "phase3_done ((ctx c)\<lparr>completed_steps := completed_steps (ctx c) @ [m]\<rparr>)"
  shows "\<exists>r. handle sink ad (ctx c) e =
               Inr ((ctx c)\<lparr>completed_steps := completed_steps (ctx c) @ [m]\<rparr>,
                    Some (StopEvent r), []) \<and>
             r_success r \<and> r_session_id r = ev_session_id ev \<and>
             r_resume_id r = ev_resume_id ev \<and>
             job_matches r = map snd (skill_matches (ctx c)) \<and>
             distinct (map fst (skill_matches (ctx c))) \<and>
             set (map fst (skill_matches (ctx c))) = set (ev_job_ids ev) \<and>
             length (job_matches r) = card (set (ev_job_ids ev)) \<and>
             (distinct (ev_job_ids ev) \<longrightarrow> length (job_matches r) = length (ev_job_ids ev)) \<and>
             recommendations (ctx c) = Some (r_recommendations r) \<and>
             interview_prep (ctx c) = Some (r_interview_prep r) \<and>
             market_insights (ctx c) = Some (r_market_insights r) \<and>
             (\<forall>r'. result c = Some r' \<longrightarrow>
                length (job_matches r') = card (set (ev_job_ids ev)))"
proof -
  let ?s = "ctx c"
  have i: "inv ev c"
    unfolding assms(1) by (rule inv_run)
  then have d: "data_ok ?s" and sr: "same_run ev ?s"
    by (simp_all add: inv_def store_ok_def)
  have ok: "ev_ok ?s e"
    using i assms(2) by (rule inv_queue)
  obtain recs prep ins where v: "recommendations ?s = Some recs"
    "interview_prep ?s = Some prep" "market_insights ?s = Some ins" "all_matched ?s"
    and h: "handle sink ad ?s e =
             Inr (?s\<lparr>completed_steps := completed_steps ?s @ [m]\<rparr>,
                  Some (StopEvent
                    \<lparr>r_success = True, r_session_id = session_id ?s, r_resume_id = resume_id ?s,
                     job_matches = map snd (skill_matches ?s), r_recommendations = recs,
                     r_interview_prep = prep, r_market_insights = ins\<rparr>),
                  [])"
    using finalize_fires [OF d ok assms(3,4), of sink ad] by blast
  have ids: "job_ids ?s = ev_job_ids ev" "session_id ?s = ev_session_id ev"
    "resume_id ?s = ev_resume_id ev"
    using sr by (simp_all add: same_run_def)
  have k: "set (map fst (skill_matches ?s)) = set (ev_job_ids ev)"
    using matches_keys [OF d v(4)] ids(1) by simp
  have dk: "distinct (map fst (skill_matches ?s))"
    using d by (simp add: data_ok_def)
  have n: "length (skill_matches ?s) = card (set (ev_job_ids ev))"
    using matches_card [OF d v(4)] ids(1) by simp
  have n': "distinct (ev_job_ids ev) \<longrightarrow> length (skill_matches ?s) = length (ev_job_ids ev)"
    using n by (simp add: distinct_card)
  have res: "\<forall>r'. result c = Some r' \<longrightarrow> length (job_matches r') = card (set (ev_job_ids ev))"
    using inv_result [OF i] by blast
  show ?thesis
    using h v ids k dk n n' res by simp
qed

theorem finalize_emits_aggregated_result_witness:
  "MarketInsightsResultEvent empty_data \<in>
     set (queue (run failing_sink stub_adapters three_jobs (fifo 11))) \<and>
   phase3_marker (MarketInsightsResultEvent empty_data) = Some ''market_insights'' \<and>
   phase3_done ((ctx (run failing_sink stub_adapters three_jobs (fifo 11)))
     \<lparr>completed_steps :=
        completed_steps (ctx (run failing_sink stub_adapters three_jobs (fifo 11))) @
        [''market_insights'']\<rparr>) \<and>
   (\<exists>r. handle failing_sink stub_adapters
          (ctx (run failing_sink stub_adapters three_jobs (fifo 11)))
          (MarketInsightsResultEvent empty_data) =
        Inr ((ctx (run failing_sink stub_adapters three_jobs (fifo 11)))
               \<lparr>completed_steps :=
                  completed_steps (ctx (run failing_sink stub_adapters three_jobs (fifo 11))) @
                  [''market_insights'']\<rparr>,
             Some (StopEvent r), []) \<and>
        length (job_matches r) = 3 \<and>
        set (map fst (skill_matches (ctx (run failing_sink stub_adapters three_jobs (fifo 11))))) =
          {''a'', ''b'', ''c''} \<and>
        r_recommendations r = empty_data)"
proof -
  let ?c = "run failing_sink stub_adapters three_jobs (fifo 11)"
  have q: "queue ?c = [MarketInsightsResultEvent empty_data]"
    by code_simp
  then have p: "MarketInsightsResultEvent empty_data \<in> set (queue ?c)"
    by simp
  have m: "phase3_marker (MarketInsightsResultEvent empty_data) = Some ''market_insights''"
    by simp
  have pd: "phase3_done ((ctx ?c)\<lparr>completed_steps := completed_steps (ctx ?c) @ [''market_insights'']\<rparr>)"
    by code_simp
  have rc: "recommendations (ctx ?c) = Some empty_data"
    by code_simp
  have ids: "card (set (ev_job_ids three_jobs)) = 3" "set (ev_job_ids three_jobs) = {''a'', ''b'', ''c''}"
    by (simp_all add: three_jobs_def)
  from finalize_emits_aggregated_result [OF refl p m pd]
  obtain r where "handle failing_sink stub_adapters (ctx ?c) (MarketInsightsResultEvent empty_data) =
        Inr ((ctx ?c)\<lparr>completed_steps := completed_steps (ctx ?c) @ [''market_insights'']\<rparr>,
             Some (StopEvent r), [])"
    "length (job_matches r) = card (set (ev_job_ids three_jobs))"
    "set (map fst (skill_matches (ctx ?c))) = set (ev_job_ids three_jobs)"
    "recommendations (ctx ?c) = Some (r_recommendations r)"
    by blast
  then have "handle failing_sink stub_adapters (ctx ?c) (MarketInsightsResultEvent empty_data) =
        Inr ((ctx ?c)\<lparr>completed_steps := completed_steps (ctx ?c) @ [''market_insights'']\<rparr>,
             Some (StopEvent r), []) \<and>
        length (job_matches r) = 3 \<and>
        set (map fst (skill_matches (ctx ?c))) = {''a'', ''b'', ''c''} \<and>
        r_recommendations r = empty_data"
    using ids rc by simp
  then show ?thesis
    using p m pd by blast
qed

section \<open>Duplicate completions\<close>

lemma resume_done_set:
  "set (completed_steps t) = set (completed_steps s) \<Longrightarrow>
   needs_resume_parsing t = needs_resume_parsing s \<Longrightarrow> resume_done t = resume_done s"
  by (simp add: resume_done_def)

lemma jds_done_set:
  "set (completed_steps t) = set (completed_steps s) \<Longrightarrow>
   needs_jd_parsing t = needs_jd_parsing s \<Longrightarrow> job_ids t = job_ids s \<Longrightarrow>
   jds_done t = jds_done s"
  by (simp add: jds_done_def)

lemma all_matched_set:
  "set (completed_steps t) = set (completed_steps s) \<Longrightarrow> job_ids t = job_ids s \<Longrightarrow>
   all_matched t = all_matched s"
  by (simp add: all_matched_def)

lemma phase3_done_set:
  "set (completed_steps t) = set (completed_steps s) \<Longrightarrow> phase3_done t = phase3_done s"
  by (simp add: phase3_done_def)

lemma output_collect_phase1:
  assumes "set cs = set (completed_steps s)"
  shows "output_of (collect_phase1 sink (s\<lparr>completed_steps := cs\<rparr>) e) =
         output_of (collect_phase1 sink s e)"
proof (cases "phase1_marker e")
  case None
  then show ?thesis by (simp add: collect_phase1_eq output_of_def)
next
  case (Some m)
  let ?t = "s\<lparr>completed_steps := cs @ [m]\<rparr>" and ?s = "s\<lparr>completed_steps := completed_steps s @ [m]\<rparr>"
  have "resume_done ?t = resume_done ?s" "jds_done ?t = jds_done ?s"
    using assms by (simp_all add: resume_done_set jds_done_set)
  then show ?thesis
    using Some by (simp add: collect_phase1_eq output_of_def)
qed

lemma phase3_events_completed:
  "phase3_events (s\<lparr>completed_steps := cs\<rparr>) = phase3_events s"
  by (cases "job_ids s") (simp_all add: phase3_events_def)

lemma output_collect_phase2:
  assumes "set cs = set (completed_steps s)"
  shows "output_of (collect_phase2 sink (s\<lparr>completed_steps := cs\<rparr>) j) =
         output_of (collect_phase2 sink s j)"
proof -
  let ?t = "s\<lparr>completed_steps := cs @ [''matched_'' @ j]\<rparr>"
  let ?s = "s\<lparr>completed_steps := completed_steps s @ [''matched_'' @ j]\<rparr>"
  have "all_matched ?t = all_matched ?s"
    using assms by (simp add: all_matched_set)
  then show ?thesis
    by (simp add: collect_phase2_eq output_of_def phase3_events_completed)
qed

lemma output_finalize:
  assumes "set cs = set (completed_steps s)"
  shows "output_of (finalize sink (s\<lparr>completed_steps := cs\<rparr>) e) =
         output_of (finalize sink s e)"
proof (cases "phase3_marker e")
  case None
  then show ?thesis by (simp add: finalize_eq output_of_def)
next
  case (Some m)
  let ?t = "s\<lparr>completed_steps := cs @ [m]\<rparr>" and ?s = "s\<lparr>completed_steps := completed_steps s @ [m]\<rparr>"
  have "phase3_done ?t = phase3_done ?s"
    using assms by (simp add: phase3_done_set)
  then show ?thesis
    using Some
    by (simp add: finalize_eq output_of_def store_get_def and_then_def split: option.splits)
qed

lemma collect_phase1_completed:
  "phase1_marker e = Some m \<Longrightarrow> collect_phase1 sink s e = Inr (s1, out1) \<Longrightarrow>
   completed_steps s1 = completed_steps s @ [m]"
  by (auto simp: collect_phase1_eq split: if_splits)

lemma collect_phase2_completed:
  "collect_phase2 sink s j = Inr (s1, out1) \<Longrightarrow>
   completed_steps s1 = completed_steps s @ [''matched_'' @ j]"
  by (auto simp: collect_phase2_eq split: if_splits)

lemma finalize_completed:
  "phase3_marker e = Some m \<Longrightarrow> finalize sink s e = Inr (s1, out1) \<Longrightarrow>
   completed_steps s1 = completed_steps s @ [m]"
  by (auto simp: finalize_eq store_get_def and_then_def split: if_splits option.splits)

text \<open>
  C4, as the specification states it, fails: \<open>completed_steps\<close> is a list and every
  collector appends to it unconditionally, so a completion recorded twice is in the
  record twice.
\<close>

theorem duplicate_completion_is_appended_again:
  "collect_phase2 failing_sink (initial_store three_jobs) ''a'' =
     Inr ((initial_store three_jobs)\<lparr>completed_steps := [''matched_a'']\<rparr>, None, []) \<and>
   collect_phase2 failing_sink
     ((initial_store three_jobs)\<lparr>completed_steps := [''matched_a'']\<rparr>) ''a'' =
     Inr ((initial_store three_jobs)\<lparr>completed_steps := [''matched_a'', ''matched_a'']\<rparr>,
          None, []) \<and>
   completed_steps ((initial_store three_jobs)\<lparr>completed_steps := [''matched_a'', ''matched_a'']\<rparr>) \<noteq>
   completed_steps ((initial_store three_jobs)\<lparr>completed_steps := [''matched_a'']\<rparr>)"
  by (simp add: collect_phase2_eq all_matched_def initial_store_def three_jobs_def)

text \<open>
  C4, amended. A collector that handles the same completion a second time appends its
  marker a second time: the list \<open>completed_steps\<close> grows by one entry, and the set of
  different markers in it stays the same. What a collector emits depends on the markers
  recorded before only through that set: two stores that differ only in
  \<open>completed_steps\<close>, with the same set of markers, give the same output.
\<close>

theorem duplicate_completion_keeps_marker_set:
  assumes "set cs = set (completed_steps s)"
  shows "(phase1_marker e = Some m \<and> collect_phase1 sink s e = Inr (s1, out1) \<and>
          collect_phase1 sink s1 e = Inr (s2, out2) \<longrightarrow>
            completed_steps s2 = completed_steps s1 @ [m] \<and>
            set (completed_steps s2) = set (completed_steps s1)) \<and>
         (collect_phase2 sink s j = Inr (s1, out1) \<and>
          collect_phase2 sink s1 j = Inr (s2, out2) \<longrightarrow>
            completed_steps s2 = completed_steps s1 @ [''matched_'' @ j] \<and>
            set (completed_steps s2) = set (completed_steps s1)) \<and>
         (phase3_marker e = Some m \<and> finalize sink s e = Inr (s1, out1) \<and>
          finalize sink s1 e = Inr (s2, out2) \<longrightarrow>
            completed_steps s2 = completed_steps s1 @ [m] \<and>
            set (completed_steps s2) = set (completed_steps s1)) \<and>
         output_of (collect_phase1 sink (s\<lparr>completed_steps := cs\<rparr>) e) =
           output_of (collect_phase1 sink s e) \<and>
         output_of (collect_phase2 sink (s\<lparr>completed_steps := cs\<rparr>) j) =
           output_of (collect_phase2 sink s j) \<and>
         output_of (finalize sink (s\<lparr>completed_steps := cs\<rparr>) e) =
           output_of (finalize sink s e)"
proof (intro conjI impI)
  assume a: "phase1_marker e = Some m \<and> collect_phase1 sink s e = Inr (s1, out1) \<and>
          collect_phase1 sink s1 e = Inr (s2, out2)"
  then have "completed_steps s1 = completed_steps s @ [m]"
    "completed_steps s2 = completed_steps s1 @ [m]"
    using collect_phase1_completed by blast+
  then show "completed_steps s2 = completed_steps s1 @ [m]"
    "set (completed_steps s2) = set (completed_steps s1)"
    by auto
next
  assume a: "collect_phase2 sink s j = Inr (s1, out1) \<and>
          collect_phase2 sink s1 j = Inr (s2, out2)"
  then have "completed_steps s1 = completed_steps s @ [''matched_'' @ j]"
    "completed_steps s2 = completed_steps s1 @ [''matched_'' @ j]"
    using collect_phase2_completed by blast+
  then show "completed_steps s2 = completed_steps s1 @ [''matched_'' @ j]"
    "set (completed_steps s2) = set (completed_steps s1)"
    by auto
next
  assume a: "phase3_marker e = Some m \<and> finalize sink s e = Inr (s1, out1) \<and>
          finalize sink s1 e = Inr (s2, out2)"
  then have "completed_steps s1 = completed_steps s @ [m]"
    "completed_steps s2 = completed_steps s1 @ [m]"
    using finalize_completed by blast+
  then show "completed_steps s2 = completed_steps s1 @ [m]"
    "set (completed_steps s2) = set (completed_steps s1)"
    by auto
next
  show "output_of (collect_phase1 sink (s\<lparr>completed_steps := cs\<rparr>) e) =
           output_of (collect_phase1 sink s e)"
    using assms by (rule output_collect_phase1)
  show "output_of (collect_phase2 sink (s\<lparr>completed_steps := cs\<rparr>) j) =
           output_of (collect_phase2 sink s j)"
    using assms by (rule output_collect_phase2)
  show "output_of (finalize sink (s\<lparr>completed_steps := cs\<rparr>) e) =
           output_of (finalize sink s e)"
    using assms by (rule output_finalize)
qed

theorem duplicate_completion_keeps_marker_set_witness:
  "set [''matched_b'', ''matched_a'', ''matched_a''] =
     set (completed_steps ((initial_store three_jobs)\<lparr>completed_steps := [''matched_a'', ''matched_b'']\<rparr>)) \<and>
   collect_phase2 failing_sink
     ((initial_store three_jobs)\<lparr>completed_steps := [''matched_a'', ''matched_b'']\<rparr>) ''b'' =
     Inr ((initial_store three_jobs)
            \<lparr>completed_steps := [''matched_a'', ''matched_b'', ''matched_b'']\<rparr>, None, []) \<and>
   collect_phase2 failing_sink
     ((initial_store three_jobs)
        \<lparr>completed_steps := [''matched_a'', ''matched_b'', ''matched_b'']\<rparr>) ''b'' =
     Inr ((initial_store three_jobs)
            \<lparr>completed_steps := [''matched_a'', ''matched_b'', ''matched_b'', ''matched_b'']\<rparr>,
          None, []) \<and>
   set [''matched_a'', ''matched_b'', ''matched_b'', ''matched_b''] =
     set [''matched_a'', ''matched_b'', ''matched_b''] \<and>
   output_of (collect_phase2 failing_sink
     ((initial_store three_jobs)\<lparr>completed_steps := [''matched_b'', ''matched_a'', ''matched_a'']\<rparr>)
     ''c'') =
   output_of (collect_phase2 failing_sink
     ((initial_store three_jobs)\<lparr>completed_steps := [''matched_a'', ''matched_b'']\<rparr>) ''c'')"
proof -
  let ?s = "(initial_store three_jobs)\<lparr>completed_steps := [''matched_a'', ''matched_b'']\<rparr>"
  let ?s1 = "(initial_store three_jobs)
               \<lparr>completed_steps := [''matched_a'', ''matched_b'', ''matched_b'']\<rparr>"
  let ?s2 = "(initial_store three_jobs)
               \<lparr>completed_steps := [''matched_a'', ''matched_b'', ''matched_b'', ''matched_b'']\<rparr>"
  have h: "set [''matched_b'', ''matched_a'', ''matched_a''] = set (completed_steps ?s)"
    by auto
  have 1: "collect_phase2 failing_sink ?s ''b'' = Inr (?s1, None, [])"
    by (simp add: collect_phase2_eq all_matched_def initial_store_def three_jobs_def)
  have 2: "collect_phase2 failing_sink ?s1 ''b'' = Inr (?s2, None, [])"
    by (simp add: collect_phase2_eq all_matched_def initial_store_def three_jobs_def)
  note t = duplicate_completion_keeps_marker_set
    [OF h, where sink = failing_sink and j = "''b''" and ?s1.0 = ?s1 and ?s2.0 = ?s2
       and ?out1.0 = "(None, [])" and ?out2.0 = "(None, [])"]
  note u = duplicate_completion_keeps_marker_set
    [OF h, where sink = failing_sink and j = "''c''"]
  have "set (completed_steps ?s2) = set (completed_steps ?s1)"
    using t 1 2 by blast
  moreover have "output_of (collect_phase2 failing_sink
      (?s\<lparr>completed_steps := [''matched_b'', ''matched_a'', ''matched_a'']\<rparr>) ''c'') =
    output_of (collect_phase2 failing_sink ?s ''c'')"
    using u by blast
  ultimately show ?thesis
    using h 1 2 by simp
qed

section \<open>A barrier fires once when every completion arrives once\<close>

lemma phase1_done_iff:
  "resume_done s \<and> jds_done s \<longleftrightarrow> set (expected_phase1 s) \<subseteq> set (completed_steps s)"
  by (auto simp: resume_done_def jds_done_def expected_phase1_def list_all_iff)

lemma all_matched_iff:
  "all_matched s \<longleftrightarrow> (\<lambda>j. ''matched_'' @ j) ` set (job_ids s) \<subseteq> set (completed_steps s)"
  by (auto simp: all_matched_def list_all_iff)

lemma expected_phase1_completed:
  "expected_phase1 (s\<lparr>completed_steps := cs\<rparr>) = expected_phase1 s"
  by (simp add: expected_phase1_def)

lemma feed_collect_phase2:
  assumes "distinct (map fst rs)" and "rs \<noteq> []"
    and "fst ` set rs \<subseteq> set (job_ids s)"
    and "\<forall>j \<in> fst ` set rs. (''matched_'' @ j) \<notin> set (completed_steps s)"
    and "\<forall>j \<in> set (job_ids s). j \<in> fst ` set rs \<or> (''matched_'' @ j) \<in> set (completed_steps s)"
  shows "feed (handle sink ad) s (map (\<lambda>(j, d). SkillMatchResultEvent j d) rs) =
         replicate (length rs - 1) [] @ [phase3_events s]"
  using assms
proof (induction rs arbitrary: s)
  case Nil
  then show ?case by simp
next
  case (Cons r rest)
  obtain j d where r: "r = (j, d)" by (cases r) auto
  let ?s = "s\<lparr>completed_steps := completed_steps s @ [''matched_'' @ j]\<rparr>"
  show ?case
  proof (cases "rest = []")
    case True
    have "all_matched ?s"
      using Cons.prems(5) True r by (auto simp: all_matched_iff)
    then show ?thesis
      using True r by (simp add: collect_phase2_eq)
  next
    case False
    then obtain j' d' where m: "(j', d') \<in> set rest"
      by (cases rest) auto
    have ne: "j' \<noteq> j"
      using Cons.prems(1) r m by force
    have "j' \<in> set (job_ids s)" "(''matched_'' @ j') \<notin> set (completed_steps s)"
      using Cons.prems(3,4) m by force+
    then have nf: "\<not> all_matched ?s"
      using ne by (auto simp: all_matched_iff)
    have ih: "feed (handle sink ad) ?s (map (\<lambda>(j, d). SkillMatchResultEvent j d) rest) =
         replicate (length rest - 1) [] @ [phase3_events ?s]"
    proof (rule Cons.IH)
      show "distinct (map fst rest)" using Cons.prems(1) by simp
      show "rest \<noteq> []" by (rule False)
      show "fst ` set rest \<subseteq> set (job_ids ?s)" using Cons.prems(3) by auto
      show "\<forall>j \<in> fst ` set rest. (''matched_'' @ j) \<notin> set (completed_steps ?s)"
        using Cons.prems(1,4) r by force
      show "\<forall>k \<in> set (job_ids ?s). k \<in> fst ` set rest \<or> (''matched_'' @ k) \<in> set (completed_steps ?s)"
        using Cons.prems(5) r by auto
    qed
    have "length rest - 1 + 1 = length rest"
      using False by (cases rest) auto
    then have "replicate (length rest) [] = ([]::event list) # replicate (length rest - 1) []"
      by (metis Suc_eq_plus1 replicate_Suc)
    then show ?thesis
      using nf r ih by (simp add: collect_phase2_eq phase3_events_completed)
  qed
qed

lemma feed_collect_phase1:
  assumes "map phase1_marker es = map Some ms" and "distinct ms" and "es \<noteq> []"
    and "set ms \<subseteq> set (expected_phase1 s)"
    and "set (expected_phase1 s) \<subseteq> set ms \<union> set (completed_steps s)"
    and "set ms \<inter> set (completed_steps s) = {}"
  shows "feed (collect_phase1 sink) s es =
         replicate (length es - 1) [] @
         [map (\<lambda>job_id. SkillMatchEvent (session_id s) (resume_id s) job_id) (job_ids s)]"
  using assms
proof (induction es arbitrary: s ms)
  case Nil
  then show ?case by simp
next
  case (Cons e rest)
  obtain m ms' where ms: "ms = m # ms'" "phase1_marker e = Some m"
    "map phase1_marker rest = map Some ms'"
    using Cons.prems(1) by (cases ms) auto
  let ?s = "s\<lparr>completed_steps := completed_steps s @ [m]\<rparr>"
  have ex: "expected_phase1 ?s = expected_phase1 s"
    by (rule expected_phase1_completed)
  show ?case
  proof (cases "rest = []")
    case True
    then have "ms' = []"
      using ms(3) by simp
    then have "set (expected_phase1 ?s) \<subseteq> set (completed_steps ?s)"
      using Cons.prems(5) ms(1) ex by auto
    then have "resume_done ?s \<and> jds_done ?s"
      using phase1_done_iff by blast
    then show ?thesis
      using True ms(2) by (simp add: collect_phase1_eq)
  next
    case False
    then obtain m' ms'' where m': "ms' = m' # ms''"
      using ms(3) by (cases ms') auto
    have "m' \<noteq> m" "m' \<in> set (expected_phase1 s)" "m' \<notin> set (completed_steps s)"
      using Cons.prems(2,4,6) ms(1) m' by auto
    then have "\<not> set (expected_phase1 ?s) \<subseteq> set (completed_steps ?s)"
      using ex by auto
    then have nf: "\<not> (resume_done ?s \<and> jds_done ?s)"
      using phase1_done_iff by blast
    have ih: "feed (collect_phase1 sink) ?s rest =
         replicate (length rest - 1) [] @
         [map (\<lambda>job_id. SkillMatchEvent (session_id ?s) (resume_id ?s) job_id) (job_ids ?s)]"
    proof (rule Cons.IH [of ms'])
      show "map phase1_marker rest = map Some ms'" by (rule ms(3))
      show "distinct ms'" using Cons.prems(2) ms(1) by simp
      show "rest \<noteq> []" by (rule False)
      show "set ms' \<subseteq> set (expected_phase1 ?s)" using Cons.prems(4) ms(1) ex by auto
      show "set (expected_phase1 ?s) \<subseteq> set ms' \<union> set (completed_steps ?s)"
        using Cons.prems(5) ms(1) ex by auto
      show "set ms' \<inter> set (completed_steps ?s) = {}"
        using Cons.prems(2,6) ms(1) by auto
    qed
    have "length rest - 1 + 1 = length rest"
      using False by (cases rest) auto
    then have "replicate (length rest) [] = ([]::event list) # replicate (length rest - 1) []"
      by (metis Suc_eq_plus1 replicate_Suc)
    moreover have "collect_phase1 sink s e = Inr (?s, None, [])"
      using nf ms(2) by (auto simp: collect_phase1_eq)
    ultimately show ?thesis
      using ih by simp
  qed
qed

lemma collect_phase1_fires_again:
  assumes "resume_done s" and "jds_done s" and "phase1_marker e = Some m"
  shows "output_of (collect_phase1 sink s e) =
         Inr (dispatch (map (\<lambda>job_id. SkillMatchEvent (session_id s) (resume_id s) job_id)
                          (job_ids s)))"
proof -
  let ?s = "s\<lparr>completed_steps := completed_steps s @ [m]\<rparr>"
  have "set (expected_phase1 s) \<subseteq> set (completed_steps s)"
    using assms(1,2) using phase1_done_iff by blast
  then have "set (expected_phase1 ?s) \<subseteq> set (completed_steps ?s)"
    by (auto simp: expected_phase1_completed)
  then have "resume_done ?s \<and> jds_done ?s"
    using phase1_done_iff by blast
  then show ?thesis
    using assms(3) by (simp add: collect_phase1_eq output_of_def)
qed

lemma collect_phase2_fires_again:
  assumes "all_matched s"
  shows "output_of (collect_phase2 sink s j) = Inr (dispatch (phase3_events s))"
proof -
  have "all_matched (s\<lparr>completed_steps := completed_steps s @ [''matched_'' @ j]\<rparr>)"
    using assms by (rule all_matched_append)
  then show ?thesis
    by (simp add: collect_phase2_eq output_of_def)
qed

text \<open>
  C1, as the specification states it, fails: the collectors have no one-shot guard. Once
  the barrier condition holds it holds for every later result event as well, so a
  completion delivered again after the barrier fired makes the collector emit the next
  phase's events a second time. First \<open>collect_phase1\<close> with the completion of job
  \<open>b\<close> delivered twice, then \<open>collect_phase2\<close> with the completion of job \<open>a\<close>
  delivered again at the end.
\<close>

theorem late_completion_fires_barrier_again:
  "feed (collect_phase1 failing_sink) (initial_store with_texts)
     [ResumeParseResultEvent ''r1'' empty_data, JDAnalyzeResultEvent ''a'' empty_data,
      JDAnalyzeResultEvent ''b'' empty_data, JDAnalyzeResultEvent ''b'' empty_data] =
     [[], [],
      [SkillMatchEvent ''s1'' ''r1'' ''a'', SkillMatchEvent ''s1'' ''r1'' ''b''],
      [SkillMatchEvent ''s1'' ''r1'' ''a'', SkillMatchEvent ''s1'' ''r1'' ''b'']] \<and>
   feed (handle failing_sink stub_adapters) (initial_store three_jobs)
     [SkillMatchResultEvent ''a'' empty_data, SkillMatchResultEvent ''b'' empty_data,
      SkillMatchResultEvent ''c'' empty_data, SkillMatchResultEvent ''a'' empty_data] =
     [[], [],
      [GenerateRecommendationsEvent ''s1'' [], GenerateInterviewPrepEvent ''s1'' [],
       GenerateMarketInsightsEvent ''s1'' ''Software Engineer''],
      [GenerateRecommendationsEvent ''s1'' [], GenerateInterviewPrepEvent ''s1'' [],
       GenerateMarketInsightsEvent ''s1'' ''Software Engineer'']]"
  by code_simp

text \<open>
  C1, amended. When every completion a barrier waits for is delivered exactly once, in
  any order, the collector emits the next phase's events exactly once, on the last of
  them, and nothing before. For \<open>collect_phase1\<close>: the events' markers are distinct,
  are the markers \<open>expected_phase1\<close> and none is recorded yet. For \<open>collect_phase2\<close>:
  the results are for different job ids, the job ids of the run, none matched yet. There
  is no one-shot guard: on a store in which the barrier condition already holds, every
  further result event makes the collector emit the same events again.
\<close>

theorem barrier_fires_once_when_each_completion_arrives_once:
  "(map phase1_marker es = map Some ms \<and> distinct ms \<and> es \<noteq> [] \<and>
    set ms = set (expected_phase1 s) \<and> set ms \<inter> set (completed_steps s) = {} \<longrightarrow>
      feed (collect_phase1 sink) s es =
        replicate (length es - 1) [] @
        [map (\<lambda>job_id. SkillMatchEvent (session_id s) (resume_id s) job_id) (job_ids s)]) \<and>
   (distinct (map fst rs) \<and> rs \<noteq> [] \<and> set (map fst rs) = set (job_ids s) \<and>
    (\<forall>j \<in> set (job_ids s). (''matched_'' @ j) \<notin> set (completed_steps s)) \<longrightarrow>
      feed (handle sink ad) s (map (\<lambda>(j, d). SkillMatchResultEvent j d) rs) =
        replicate (length rs - 1) [] @ [phase3_events s]) \<and>
   (resume_done s \<and> jds_done s \<and> phase1_marker e = Some m \<longrightarrow>
      output_of (collect_phase1 sink s e) =
        Inr (dispatch (map (\<lambda>job_id. SkillMatchEvent (session_id s) (resume_id s) job_id)
                         (job_ids s)))) \<and>
   (all_matched s \<longrightarrow>
      output_of (collect_phase2 sink s j) = Inr (dispatch (phase3_events s)))"
proof (intro conjI impI)
  assume a: "map phase1_marker es = map Some ms \<and> distinct ms \<and> es \<noteq> [] \<and>
    set ms = set (expected_phase1 s) \<and> set ms \<inter> set (completed_steps s) = {}"
  show "feed (collect_phase1 sink) s es =
        replicate (length es - 1) [] @
        [map (\<lambda>job_id. SkillMatchEvent (session_id s) (resume_id s) job_id) (job_ids s)]"
  proof (rule feed_collect_phase1 [of es ms])
    show "map phase1_marker es = map Some ms" "distinct ms" "es \<noteq> []"
      "set ms \<inter> set (completed_steps s) = {}"
      using a by blast+
    show "set ms \<subseteq> set (expected_phase1 s)"
      "set (expected_phase1 s) \<subseteq> set ms \<union> set (completed_steps s)"
      using a by auto
  qed
next
  assume a: "distinct (map fst rs) \<and> rs \<noteq> [] \<and> set (map fst rs) = set (job_ids s) \<and>
    (\<forall>j \<in> set (job_ids s). (''matched_'' @ j) \<notin> set (completed_steps s))"
  show "feed (handle sink ad) s (map (\<lambda>(j, d). SkillMatchResultEvent j d) rs) =
        replicate (length rs - 1) [] @ [phase3_events s]"
  proof (rule feed_collect_phase2)
    show "distinct (map fst rs)" "rs \<noteq> []"
      using a by blast+
    have k: "fst ` set rs = set (job_ids s)"
      using a by simp
    show "fst ` set rs \<subseteq> set (job_ids s)"
      using k by simp
    show "\<forall>j \<in> fst ` set rs. (''matched_'' @ j) \<notin> set (completed_steps s)"
      using a k by blast
    show "\<forall>j \<in> set (job_ids s). j \<in> fst ` set rs \<or> (''matched_'' @ j) \<in> set (completed_steps s)"
      using k by blast
  qed
next
  assume "resume_done s \<and> jds_done s \<and> phase1_marker e = Some m"
  then show "output_of (collect_phase1 sink s e) =
        Inr (dispatch (map (\<lambda>job_id. SkillMatchEvent (session_id s) (resume_id s) job_id)
                         (job_ids s)))"
    using collect_phase1_fires_again by blast
next
  assume "all_matched s"
  then show "output_of (collect_phase2 sink s j) = Inr (dispatch (phase3_events s))"
    by (rule collect_phase2_fires_again)
qed

theorem barrier_fires_once_when_each_completion_arrives_once_witness:
  "set [''jd_parsed_b'', ''resume_parsed'', ''jd_parsed_a''] =
     set (expected_phase1 (initial_store with_texts)) \<and>
   feed (collect_phase1 failing_sink) (initial_store with_texts)
     [JDAnalyzeResultEvent ''b'' empty_data, ResumeParseResultEvent ''r1'' empty_data,
      JDAnalyzeResultEvent ''a'' empty_data] =
     [[], [], [SkillMatchEvent ''s1'' ''r1'' ''a'', SkillMatchEvent ''s1'' ''r1'' ''b'']] \<and>
   set (map fst [(''c'', empty_data), (''a'', empty_data), (''b'', empty_data)]) =
     set (job_ids (initial_store three_jobs)) \<and>
   feed (handle failing_sink stub_adapters) (initial_store three_jobs)
     [SkillMatchResultEvent ''c'' empty_data, SkillMatchResultEvent ''a'' empty_data,
      SkillMatchResultEvent ''b'' empty_data] =
     [[], [], phase3_events (initial_store three_jobs)] \<and>
   all_matched ((initial_store three_jobs)
     \<lparr>completed_steps := [''matched_a'', ''matched_b'', ''matched_c'']\<rparr>) \<and>
   output_of (collect_phase2 failing_sink ((initial_store three_jobs)
     \<lparr>completed_steps := [''matched_a'', ''matched_b'', ''matched_c'']\<rparr>) ''b'') =
     Inr (Some (GenerateRecommendationsEvent ''s1'' []),
          [GenerateInterviewPrepEvent ''s1'' [],
           GenerateMarketInsightsEvent ''s1'' ''Software Engineer''])"
proof -
  let ?s1 = "initial_store with_texts"
  let ?es = "[JDAnalyzeResultEvent ''b'' empty_data, ResumeParseResultEvent ''r1'' empty_data,
      JDAnalyzeResultEvent ''a'' empty_data]"
  let ?ms = "[''jd_parsed_b'', ''resume_parsed'', ''jd_parsed_a'']"
  let ?s2 = "initial_store three_jobs"
  let ?rs = "[(''c'', empty_data), (''a'', empty_data), (''b'', empty_data)]"
  let ?s3 = "(initial_store three_jobs)
     \<lparr>completed_steps := [''matched_a'', ''matched_b'', ''matched_c'']\<rparr>"
  have e1: "set ?ms = set (expected_phase1 ?s1)"
    by (auto simp: expected_phase1_def initial_store_def with_texts_def)
  have h1: "map phase1_marker ?es = map Some ?ms \<and> distinct ?ms \<and> ?es \<noteq> [] \<and>
    set ?ms = set (expected_phase1 ?s1) \<and> set ?ms \<inter> set (completed_steps ?s1) = {}"
    using e1 by (simp add: initial_store_def)
  have e2: "set (map fst ?rs) = set (job_ids ?s2)"
    by (auto simp: initial_store_def three_jobs_def)
  have h2: "distinct (map fst ?rs) \<and> ?rs \<noteq> [] \<and> set (map fst ?rs) = set (job_ids ?s2) \<and>
    (\<forall>j \<in> set (job_ids ?s2). (''matched_'' @ j) \<notin> set (completed_steps ?s2))"
    using e2 by (simp add: initial_store_def)
  have h3: "all_matched ?s3"
    by (simp add: all_matched_def initial_store_def three_jobs_def)
  note t = barrier_fires_once_when_each_completion_arrives_once
  have 1: "feed (collect_phase1 failing_sink) ?s1 ?es =
        replicate (length ?es - 1) [] @
        [map (\<lambda>job_id. SkillMatchEvent (session_id ?s1) (resume_id ?s1) job_id) (job_ids ?s1)]"
    using t [where es = ?es and ms = ?ms and s = ?s1 and sink = failing_sink] h1 by blast
  have 2: "feed (handle failing_sink stub_adapters) ?s2
        (map (\<lambda>(j, d). SkillMatchResultEvent j d) ?rs) =
        replicate (length ?rs - 1) [] @ [phase3_events ?s2]"
    using t [where rs = ?rs and s = ?s2 and sink = failing_sink and ad = stub_adapters] h2
    by blast
  have 3: "output_of (collect_phase2 failing_sink ?s3 ''b'') = Inr (dispatch (phase3_events ?s3))"
    using t [where s = ?s3 and sink = failing_sink and j = "''b''"] h3 by blast
  have r1: "feed (collect_phase1 failing_sink) ?s1 ?es =
     [[], [], [SkillMatchEvent ''s1'' ''r1'' ''a'', SkillMatchEvent ''s1'' ''r1'' ''b'']]"
    using 1 by (simp add: initial_store_def with_texts_def)
  have r2: "feed (handle failing_sink stub_adapters) ?s2
     [SkillMatchResultEvent ''c'' empty_data, SkillMatchResultEvent ''a'' empty_data,
      SkillMatchResultEvent ''b'' empty_data] = [[], [], phase3_events ?s2]"
    using 2 by simp
  have r3: "output_of (collect_phase2 failing_sink ?s3 ''b'') =
     Inr (Some (GenerateRecommendationsEvent ''s1'' []),
          [GenerateInterviewPrepEvent ''s1'' [],
           GenerateMarketInsightsEvent ''s1'' ''Software Engineer''])"
    using 3 by (simp add: phase3_events_def initial_store_def three_jobs_def empty_data_def)
  show ?thesis
    using e1 e2 h3 r1 r2 r3 by blast
qed

section \<open>A failing task adapter\<close>







section \<open>What the phase-1 barrier waits for and what start dispatched\<close>

lemma run_append:
  "run sink ad ev (xs @ ys) = foldl (step sink ad) (run sink ad ev xs) ys"
  by (simp add: run_def)

lemma run_stuck:
  "queue (run sink ad ev xs) = [] \<Longrightarrow> run sink ad ev (xs @ ys) = run sink ad ev xs"
  by (simp add: run_append foldl_step_empty_queue)

text \<open>
  C2. The start handler dispatches one \<open>JDAnalyzeEvent\<close> for each key of \<open>job_texts\<close>,
  and \<open>collect_phase1\<close> waits for one \<open>jd_parsed_\<close> marker for each element of
  \<open>job_ids\<close>. With two job ids and a text for the first only, one event is dispatched
  and two completions are awaited: after the only completion the queue is empty, no
  \<open>SkillMatchEvent\<close> was emitted, there is no result, and no schedule changes that. With
  one job id and two texts, the barrier is complete after the first completion and fires
  again on the second: the \<open>SkillMatchEvent\<close> of the job is emitted twice.
\<close>

theorem barrier_waits_for_job_ids_not_for_dispatched_texts:
  "queue (begin_run failing_sink one_text_two_jobs) = [JDAnalyzeEvent ''a'' ''jd a''] \<and>
   expected_phase1 (initial_store one_text_two_jobs) = [''jd_parsed_a'', ''jd_parsed_b''] \<and>
   handled (run failing_sink stub_adapters one_text_two_jobs (fifo 2)) =
     [JDAnalyzeEvent ''a'' ''jd a'', JDAnalyzeResultEvent ''a'' empty_data] \<and>
   completed_steps (ctx (run failing_sink stub_adapters one_text_two_jobs (fifo 2))) =
     [''jd_parsed_a''] \<and>
   queue (run failing_sink stub_adapters one_text_two_jobs (fifo 2)) = [] \<and>
   result (run failing_sink stub_adapters one_text_two_jobs (fifo 2)) = None \<and>
   run failing_sink stub_adapters one_text_two_jobs (fifo 2 @ schedule) =
     run failing_sink stub_adapters one_text_two_jobs (fifo 2) \<and>
   queue (begin_run failing_sink two_texts_one_job) =
     [JDAnalyzeEvent ''a'' ''jd a'', JDAnalyzeEvent ''b'' ''jd b''] \<and>
   expected_phase1 (initial_store two_texts_one_job) = [''jd_parsed_a''] \<and>
   queue (run failing_sink stub_adapters two_texts_one_job (fifo 4)) =
     [SkillMatchEvent ''s1'' ''r1'' ''a'', SkillMatchEvent ''s1'' ''r1'' ''a'']"
proof -
  have 1: "queue (begin_run failing_sink one_text_two_jobs) = [JDAnalyzeEvent ''a'' ''jd a'']"
    by code_simp
  have 2: "expected_phase1 (initial_store one_text_two_jobs) = [''jd_parsed_a'', ''jd_parsed_b'']"
    by code_simp
  have 3: "handled (run failing_sink stub_adapters one_text_two_jobs (fifo 2)) =
     [JDAnalyzeEvent ''a'' ''jd a'', JDAnalyzeResultEvent ''a'' empty_data]"
    by code_simp
  have 4: "completed_steps (ctx (run failing_sink stub_adapters one_text_two_jobs (fifo 2))) =
     [''jd_parsed_a'']"
    by code_simp
  have 5: "queue (run failing_sink stub_adapters one_text_two_jobs (fifo 2)) = []"
    by code_simp
  have 6: "result (run failing_sink stub_adapters one_text_two_jobs (fifo 2)) = None"
    by code_simp
  have 7: "run failing_sink stub_adapters one_text_two_jobs (fifo 2 @ schedule) =
     run failing_sink stub_adapters one_text_two_jobs (fifo 2)"
    using 5 by (rule run_stuck)
  have 8: "queue (begin_run failing_sink two_texts_one_job) =
     [JDAnalyzeEvent ''a'' ''jd a'', JDAnalyzeEvent ''b'' ''jd b'']"
    by code_simp
  have 9: "expected_phase1 (initial_store two_texts_one_job) = [''jd_parsed_a'']"
    by code_simp
  have 10: "queue (run failing_sink stub_adapters two_texts_one_job (fifo 4)) =
     [SkillMatchEvent ''s1'' ''r1'' ''a'', SkillMatchEvent ''s1'' ''r1'' ''a'']"
    by code_simp
  show ?thesis
    using 1 2 3 4 5 6 7 8 9 10 by blast
qed

end
